theory Spec2Isabelle
  imports Main "HOL-Library.Word"
begin

unbundle bit_operations_syntax

section \<open>Bytes and streams\<close>

text \<open>
  A C \<^verbatim>\<open>char\<close> or \<^verbatim>\<open>unsigned char\<close> is a \<^typ>\<open>char\<close> (eight bits); a C string is
  a \<^typ>\<open>string\<close> that holds the bytes before the terminating NUL. Arithmetic on a byte
  goes through \<^const>\<open>of_char\<close> into a word and back through \<^const>\<open>char_of\<close>
  (of the word's value, which keeps the low eight bits).

  A stream open for reading (\<^verbatim>\<open>FILE *\<close> or a descriptor) is the list of the bytes
  still to come. \<^verbatim>\<open>fread(p, n, 1, f)\<close> returns 1 exactly when \<open>n\<close> more bytes are there;
  otherwise it has consumed what was left.
\<close>

type_synonym istream = string

definition fread :: "nat \<Rightarrow> istream \<Rightarrow> string option \<times> istream" where
  "fread n f = (if n \<le> length f then (Some (take n f), drop n f) else (None, []))"

text \<open>
  A stream open for writing is the bytes it has accepted and the number of bytes it will
  still accept before a write fails (a closed peer, a full device).
  \<^verbatim>\<open>fwrite(p, n, 1, f)\<close> returns 1 exactly when all \<open>n\<close> bytes were accepted.
\<close>

record ostream =
  written :: string
  room :: nat

definition fwrite :: "string \<Rightarrow> ostream \<Rightarrow> bool \<times> ostream" where
  "fwrite bs f =
     (if length bs \<le> room f
      then (True, f\<lparr>written := written f @ bs, room := room f - length bs\<rparr>)
      else (False, f\<lparr>written := written f @ take (room f) bs, room := 0\<rparr>))"

text \<open>\<^verbatim>\<open>fprintf\<close> where the source ignores its result.\<close>

definition fputs :: "string \<Rightarrow> ostream \<Rightarrow> ostream" where
  "fputs s f = snd (fwrite s f)"

definition CRLF :: string where
  "CRLF = [CHR 0x0D, CHR 0x0A]"

section \<open>ws.c: the frame codec\<close>

text \<open>\<^verbatim>\<open>Opcode_Type\<close>: the opcode of a frame is kept as the number the enum stands for.\<close>

definition OC_CONT :: nat where "OC_CONT = 0x0"
definition OC_TEXT :: nat where "OC_TEXT = 0x1"
definition OC_BIN :: nat where "OC_BIN = 0x2"
definition OC_CLOSE :: nat where "OC_CLOSE = 0x8"
definition OC_PING :: nat where "OC_PING = 0x9"
definition OC_PONG :: nat where "OC_PONG = 0xA"

text \<open>
  \<^verbatim>\<open>struct Data_Frame_S\<close>. The list \<open>payload\<close> holds the \<^verbatim>\<open>len\<close> bytes of
  \<^verbatim>\<open>payload[]\<close> that belong to the frame, so \<^verbatim>\<open>df->len\<close> is its length (a
  \<^verbatim>\<open>uint64_t\<close>: a frame has fewer than \<open>2 ^ 64\<close> payload bytes). The allocation size
  \<^verbatim>\<open>size\<close> is bookkeeping of \<^verbatim>\<open>realloc\<close> and is not modelled.
\<close>

record Data_Frame =
  opcode :: nat
  fin :: bool
  payload :: string

definition df_len :: "Data_Frame \<Rightarrow> nat" where
  "df_len df = length (payload df)"

definition alloc_dataframe :: "nat \<Rightarrow> bool \<Rightarrow> string \<Rightarrow> Data_Frame" where
  "alloc_dataframe oc fi pl = \<lparr>opcode = oc, fin = fi, payload = pl\<rparr>"

text \<open>
  \<^verbatim>\<open>struct Data_Frame_Header_S\<close>, two bytes of bit-fields. With the bit-fields allocated
  from the least significant bit (GCC on a little-endian target) the first byte is
  \<open>fin rsv1 rsv2 rsv3 opcode(4)\<close> and the second \<open>mask len(7)\<close>, high bit first.
\<close>

record Data_Frame_Header =
  h_opcode :: "8 word"
  h_rsv3 :: bool
  h_rsv2 :: bool
  h_rsv1 :: bool
  h_fin :: bool
  h_len :: "8 word"
  h_mask :: bool

definition bit_at :: "bool \<Rightarrow> nat \<Rightarrow> 8 word" where
  "bit_at b n = (if b then push_bit n 1 else 0)"

definition header_bytes :: "Data_Frame_Header \<Rightarrow> string" where
  "header_bytes h =
     [char_of (unat (bit_at (h_fin h) 7 OR bit_at (h_rsv1 h) 6 OR bit_at (h_rsv2 h) 5 OR
                     bit_at (h_rsv3 h) 4 OR (h_opcode h AND 0x0F))),
      char_of (unat (bit_at (h_mask h) 7 OR (h_len h AND 0x7F)))]"

definition header_of_bytes :: "char \<Rightarrow> char \<Rightarrow> Data_Frame_Header" where
  "header_of_bytes c0 c1 =
     (let b0 = (of_char c0 :: 8 word); b1 = (of_char c1 :: 8 word) in
      \<lparr>h_opcode = b0 AND 0x0F, h_rsv3 = bit b0 4, h_rsv2 = bit b0 5, h_rsv1 = bit b0 6,
       h_fin = bit b0 7, h_len = b1 AND 0x7F, h_mask = bit b1 7\<rparr>)"

text \<open>\<^verbatim>\<open>htobe16\<close>, \<^verbatim>\<open>htobe64\<close> followed by writing the value's bytes in memory order, and
  reading the bytes followed by \<^verbatim>\<open>be16toh\<close>, \<^verbatim>\<open>be64toh\<close>: big-endian byte strings.\<close>

definition htobe16 :: "16 word \<Rightarrow> string" where
  "htobe16 w = [char_of (unat (drop_bit 8 w)), char_of (unat w)]"

definition be16toh :: "string \<Rightarrow> 16 word" where
  "be16toh bs = foldl (\<lambda>acc c. push_bit 8 acc OR of_char c) 0 bs"

definition htobe64 :: "64 word \<Rightarrow> string" where
  "htobe64 w = map (\<lambda>s. char_of (unat (drop_bit s w))) [56, 48, 40, 32, 24, 16, 8, 0]"

definition be64toh :: "string \<Rightarrow> 64 word" where
  "be64toh bs = foldl (\<lambda>acc c. push_bit 8 acc OR of_char c) 0 bs"

text \<open>The masking loop \<^verbatim>\<open>payload[i] = payload[i] ^ mask_key[i%4]\<close>; \<^verbatim>\<open>mask_key\<close> is an
  array of four bytes.\<close>

type_synonym mask_key = "char \<times> char \<times> char \<times> char"

definition key_at :: "mask_key \<Rightarrow> nat \<Rightarrow> char" where
  "key_at k i = (case k of (k0, k1, k2, k3) \<Rightarrow>
     (if i mod 4 = 0 then k0 else if i mod 4 = 1 then k1 else if i mod 4 = 2 then k2 else k3))"

definition xor_char :: "char \<Rightarrow> char \<Rightarrow> char" where
  "xor_char a b = char_of (unat ((of_char a :: 8 word) XOR of_char b))"

fun mask_from :: "mask_key \<Rightarrow> nat \<Rightarrow> string \<Rightarrow> string" where
  "mask_from k i [] = []"
| "mask_from k i (p # ps) = xor_char p (key_at k i) # mask_from k (Suc i) ps"

definition key_bytes :: "mask_key \<Rightarrow> string" where
  "key_bytes k = (case k of (k0, k1, k2, k3) \<Rightarrow> [k0, k1, k2, k3])"

definition key_of_bytes :: "string \<Rightarrow> mask_key" where
  "key_of_bytes kb = (kb ! 0, kb ! 1, kb ! 2, kb ! 3)"

text \<open>
  \<^verbatim>\<open>read_dataframe\<close>. The result is the frame (\<open>None\<close> for the source's \<^verbatim>\<open>NULL\<close>) and
  the stream after the read. The frame passed in for reuse only saves an allocation and
  is freed on error, so it is not an argument here. The steps the source numbers (2), (3)
  and (4) are \<open>read_length\<close>, \<open>read_mask\<close> and \<open>read_payload\<close>.
\<close>

definition read_length :: "Data_Frame_Header \<Rightarrow> istream \<Rightarrow> 64 word option \<times> istream" where
  "read_length dfh f =
     (if h_len dfh = 127 then
        (case fread 8 f of
           (None, f2) \<Rightarrow> (None, f2)
         | (Some lb, f2) \<Rightarrow>
             let len64 = be64toh lb in
             if len64 AND push_bit 63 1 \<noteq> 0 then (None, f2) else (Some len64, f2))
      else if h_len dfh = 126 then
        (case fread 2 f of
           (None, f2) \<Rightarrow> (None, f2)
         | (Some lb, f2) \<Rightarrow> (Some (ucast (be16toh lb)), f2))
      else (Some (ucast (h_len dfh)), f))"

definition read_mask :: "Data_Frame_Header \<Rightarrow> istream \<Rightarrow> mask_key option option \<times> istream" where
  "read_mask dfh f =
     (if h_mask dfh then
        (case fread 4 f of
           (None, f3) \<Rightarrow> (None, f3)
         | (Some kb, f3) \<Rightarrow> (Some (Some (key_of_bytes kb)), f3))
      else (Some None, f))"

definition read_payload ::
  "Data_Frame_Header \<Rightarrow> 64 word \<Rightarrow> mask_key option \<Rightarrow> istream \<Rightarrow> Data_Frame option \<times> istream" where
  "read_payload dfh len64 mk f =
     (if len64 > 0 then
        (case fread (unat len64) f of
           (None, f4) \<Rightarrow> (None, f4)
         | (Some pl, f4) \<Rightarrow>
             (Some (alloc_dataframe (unat (h_opcode dfh)) (h_fin dfh)
                (case mk of None \<Rightarrow> pl | Some k \<Rightarrow> mask_from k 0 pl)), f4))
      else (Some (alloc_dataframe (unat (h_opcode dfh)) (h_fin dfh) []), f))"

definition read_dataframe :: "istream \<Rightarrow> bool \<Rightarrow> Data_Frame option \<times> istream" where
  "read_dataframe f require_masked =
     (case fread 2 f of
        (None, f1) \<Rightarrow> (None, f1)
      | (Some hb, f1) \<Rightarrow>
          let dfh = header_of_bytes (hb ! 0) (hb ! 1) in
          if \<not> h_mask dfh \<and> require_masked then (None, f1)
          else
            (case read_length dfh f1 of
               (None, f2) \<Rightarrow> (None, f2)
             | (Some len64, f2) \<Rightarrow>
                 (case read_mask dfh f2 of
                    (None, f3) \<Rightarrow> (None, f3)
                  | (Some mk, f3) \<Rightarrow> read_payload dfh len64 mk f3)))"

text \<open>
  \<^verbatim>\<open>write_dataframe\<close>. It returns the source's \<^verbatim>\<open>bool\<close>, the stream, and the frame:
  masking is done in place, so after a masked write the caller's frame holds the masked
  payload.
\<close>

definition make_header :: "Data_Frame \<Rightarrow> bool \<Rightarrow> 8 word \<Rightarrow> Data_Frame_Header" where
  "make_header df masked len7 =
     \<lparr>h_opcode = of_nat (opcode df), h_rsv3 = False, h_rsv2 = False, h_rsv1 = False,
      h_fin = fin df, h_len = len7, h_mask = masked\<rparr>"

definition write_header :: "Data_Frame \<Rightarrow> bool \<Rightarrow> ostream \<Rightarrow> bool \<times> ostream" where
  "write_header df masked f =
     (if df_len df \<le> 125 then
        fwrite (header_bytes (make_header df masked (of_nat (df_len df)))) f
      else if df_len df \<le> 0xffff then
        (case fwrite (header_bytes (make_header df masked 126)) f of
           (False, f1) \<Rightarrow> (False, f1)
         | (True, f1) \<Rightarrow> fwrite (htobe16 (of_nat (df_len df))) f1)
      else
        (case fwrite (header_bytes (make_header df masked 127)) f of
           (False, f1) \<Rightarrow> (False, f1)
         | (True, f1) \<Rightarrow> fwrite (htobe64 (of_nat (df_len df))) f1))"

definition write_dataframe ::
  "ostream \<Rightarrow> Data_Frame \<Rightarrow> mask_key option \<Rightarrow> bool \<times> ostream \<times> Data_Frame" where
  "write_dataframe f df mask_key =
     (case write_header df (mask_key \<noteq> None) f of
        (False, f1) \<Rightarrow> (False, f1, df)
      | (True, f1) \<Rightarrow>
          (case (case mask_key of
                   None \<Rightarrow> (True, f1)
                 | Some k \<Rightarrow> fwrite (key_bytes k) f1) of
             (False, f2) \<Rightarrow> (False, f2, df)
           | (True, f2) \<Rightarrow>
               if df_len df > 0 then
                 (let df' = (case mask_key of
                               None \<Rightarrow> df
                             | Some k \<Rightarrow> df\<lparr>payload := mask_from k 0 (payload df)\<rparr>) in
                  case fwrite (payload df') f2 of
                    (False, f3) \<Rightarrow> (False, f3, df')
                  | (True, f3) \<Rightarrow> (True, f3, df'))
               else (True, f2, df)))"

section \<open>sz.c, mem.c: strings and buffers\<close>

text \<open>\<^verbatim>\<open>tolower\<close> of the C locale: the letters \<open>A\<close> to \<open>Z\<close> move to \<open>a\<close> to \<open>z\<close>, every
  other byte stays.\<close>

definition tolower :: "char \<Rightarrow> char" where
  "tolower c = (let n = (of_char c :: nat) in if 65 \<le> n \<and> n \<le> 90 then char_of (n + 32) else c)"

text \<open>\<^verbatim>\<open>sz_starts_with_case\<close>: the loop runs while both strings have a byte left and
  then answers whether the prefix is used up. The strings here are not \<^verbatim>\<open>NULL\<close>; the
  callers below pass \<^verbatim>\<open>NULL\<close> to neither.\<close>

fun sz_starts_with_case :: "string \<Rightarrow> string \<Rightarrow> bool \<Rightarrow> bool" where
  "sz_starts_with_case (a # i) (b # j) ignore_case =
     (if (if ignore_case then tolower a else a) \<noteq> (if ignore_case then tolower b else b)
      then False
      else sz_starts_with_case i j ignore_case)"
| "sz_starts_with_case i j ignore_case = (j = [])"

definition sz_starts_with :: "string \<Rightarrow> string \<Rightarrow> bool" where
  "sz_starts_with sz prefix = sz_starts_with_case sz prefix False"

definition sz_to_lower :: "string \<Rightarrow> string" where
  "sz_to_lower sz = map tolower sz"

text \<open>\<^verbatim>\<open>sz_equal_ignore_case\<close>; a pointer that may be \<^verbatim>\<open>NULL\<close> is an option. Two equal
  pointers are both \<^verbatim>\<open>NULL\<close> or name the same bytes, which the loop accepts as well.\<close>

fun sz_equal_ignore_case_loop :: "string \<Rightarrow> string \<Rightarrow> bool" where
  "sz_equal_ignore_case_loop (a # sz1) (b # sz2) =
     (if tolower a \<noteq> tolower b then False else sz_equal_ignore_case_loop sz1 sz2)"
| "sz_equal_ignore_case_loop sz1 sz2 = (sz1 = [] \<and> sz2 = [])"

fun sz_equal_ignore_case :: "string option \<Rightarrow> string option \<Rightarrow> bool" where
  "sz_equal_ignore_case None None = True"
| "sz_equal_ignore_case None (Some sz2) = False"
| "sz_equal_ignore_case (Some sz1) None = False"
| "sz_equal_ignore_case (Some sz1) (Some sz2) = sz_equal_ignore_case_loop sz1 sz2"

definition SP_HT :: string where
  "SP_HT = [CHR '' '', CHR 0x09, CHR 0x0A, CHR 0x0D]"

definition sz_trim :: "string \<Rightarrow> string" where
  "sz_trim sz =
     (let sz1 = dropWhile (\<lambda>c. c \<in> set SP_HT) sz in
      if sz1 \<noteq> [] then rev (dropWhile (\<lambda>c. c \<in> set SP_HT) (rev sz1)) else sz1)"

definition sz_cat :: "string \<Rightarrow> string \<Rightarrow> string" where
  "sz_cat sz1 sz2 = sz1 @ sz2"

text \<open>The bytes of a buffer up to the first NUL: what the C string functions see.\<close>

definition c_str :: "string \<Rightarrow> string" where
  "c_str bs = takeWhile (\<lambda>c. c \<noteq> CHR 0x00) bs"

text \<open>\<^verbatim>\<open>strtok\<close> of the C library: skip leading delimiters; no byte left gives
  \<^verbatim>\<open>NULL\<close>; otherwise the token runs to the next delimiter, which is overwritten with NUL,
  and the scan resumes behind it. The result is the token and the string that the next
  \<^verbatim>\<open>strtok(NULL, ...)\<close> scans.\<close>

definition strtok :: "string \<Rightarrow> string \<Rightarrow> string option \<times> string" where
  "strtok s delim =
     (let s1 = dropWhile (\<lambda>c. c \<in> set delim) s in
      if s1 = [] then (None, [])
      else (Some (takeWhile (\<lambda>c. c \<notin> set delim) s1),
            drop 1 (dropWhile (\<lambda>c. c \<notin> set delim) s1)))"

text \<open>\<^verbatim>\<open>mem_append\<close>: the buffer keeps its first \<^verbatim>\<open>dest_len\<close> bytes and gains the
  source's. A \<^verbatim>\<open>NULL\<close> buffer is the empty list.\<close>

definition mem_append :: "string \<Rightarrow> nat \<Rightarrow> string \<Rightarrow> string \<times> nat" where
  "mem_append dest dest_len src = (take dest_len dest @ src, dest_len + length src)"

section \<open>ht.c: the hash table\<close>

text \<open>
  \<^verbatim>\<open>struct Hashtable_S\<close>: \<^verbatim>\<open>nhash\<close> chains of name-value pairs; a value is a pointer
  and may be \<^verbatim>\<open>NULL\<close> (\<open>None\<close>). The functions that free keys and values are memory
  management and are not modelled.
\<close>

record 'v Hashtable =
  ht_count :: nat
  nhash :: nat
  hash :: "string \<Rightarrow> 32 word"
  chains :: "(string \<times> 'v option) list list"

definition HASH_MUL :: "32 word" where
  "HASH_MUL = 31"

definition ht_hash_sz :: "string \<Rightarrow> 32 word" where
  "ht_hash_sz str = foldl (\<lambda>h p. HASH_MUL * h + of_char p) 0 str"

definition ht_create :: "nat \<Rightarrow> (string \<Rightarrow> 32 word) option \<Rightarrow> 'v Hashtable" where
  "ht_create n hash_fn =
     (let n1 = (if n = 0 then 1021 else n) in
      \<lparr>ht_count = 0, nhash = n1,
       hash = (case hash_fn of None \<Rightarrow> ht_hash_sz | Some h \<Rightarrow> h),
       chains = replicate n1 []\<rparr>)"

definition ht_size :: "'v Hashtable \<Rightarrow> nat" where
  "ht_size ht = ht_count ht"

text \<open>The walk along one chain: \<open>chain_find\<close> is the loop of \<^verbatim>\<open>ht_get\<close> and
  \<^verbatim>\<open>ht_contains\<close>, \<open>chain_update\<close> the loop of \<^verbatim>\<open>ht_put\<close> (\<open>None\<close> when the key is
  not in the chain).\<close>

fun chain_find :: "string \<Rightarrow> (string \<times> 'v option) list \<Rightarrow> 'v option option" where
  "chain_find key [] = None"
| "chain_find key ((k, v) # nvp) = (if key = k then Some v else chain_find key nvp)"

fun chain_update ::
  "string \<Rightarrow> 'v option \<Rightarrow> (string \<times> 'v option) list \<Rightarrow> (string \<times> 'v option) list option" where
  "chain_update key val [] = None"
| "chain_update key val ((k, v) # nvp) =
     (if key = k then Some ((k, val) # nvp)
      else (case chain_update key val nvp of
              None \<Rightarrow> None
            | Some nvp' \<Rightarrow> Some ((k, v) # nvp')))"

definition ht_index :: "'v Hashtable \<Rightarrow> string \<Rightarrow> nat" where
  "ht_index ht key = unat (hash ht key) mod nhash ht"

definition ht_put :: "'v Hashtable \<Rightarrow> string \<Rightarrow> 'v option \<Rightarrow> 'v Hashtable" where
  "ht_put ht key val =
     (let h = ht_index ht key in
      case chain_update key val (chains ht ! h) of
        Some chain' \<Rightarrow> ht\<lparr>chains := (chains ht)[h := chain']\<rparr>
      | None \<Rightarrow> ht\<lparr>ht_count := ht_count ht + 1,
                     chains := (chains ht)[h := (key, val) # (chains ht ! h)]\<rparr>)"

definition ht_contains :: "'v Hashtable \<Rightarrow> string \<Rightarrow> bool" where
  "ht_contains ht key = (chain_find key (chains ht ! ht_index ht key) \<noteq> None)"

definition ht_get :: "'v Hashtable \<Rightarrow> string \<Rightarrow> 'v option" where
  "ht_get ht key =
     (case chain_find key (chains ht ! ht_index ht key) of
        Some v \<Rightarrow> v
      | None \<Rightarrow> None)"

text \<open>Two invariants of a table, used in the proofs below: there are as many chains as
  \<^verbatim>\<open>nhash\<close> says and at least one, and every key is in lower case.\<close>

definition ht_wf :: "'v Hashtable \<Rightarrow> bool" where
  "ht_wf ht = (length (chains ht) = nhash ht \<and> 0 < nhash ht)"

definition keys_lower :: "'v Hashtable \<Rightarrow> bool" where
  "keys_lower ht = (\<forall>c \<in> set (chains ht). \<forall>kv \<in> set c. sz_to_lower (fst kv) = fst kv)"

section \<open>io.c: lines and encodings\<close>

datatype errno = EINVAL | EIO | ENAMETOOLONG | EPERM | ENOTDIR | ENOENT | EACCES

definition CR :: char where "CR = CHR 0x0D"
definition LF :: char where "LF = CHR 0x0A"

text \<open>
  \<^verbatim>\<open>io_read_line_crlf\<close>. \<open>io_read_line_loop\<close> is its \<^verbatim>\<open>while(!eol)\<close>: \<open>line\<close> holds the
  bytes stored so far. At the end of the line the last stored byte, the CR, is overwritten
  by NUL, so the buffer holds the line without it. A descriptor that is a list of bytes is
  never interrupted, so the retry on \<^verbatim>\<open>EINTR\<close> has no counterpart.
\<close>

fun io_read_line_loop :: "nat \<Rightarrow> string \<Rightarrow> char \<Rightarrow> istream \<Rightarrow> (errno + string) \<times> istream" where
  "io_read_line_loop buffer_len line ch_prev [] = (Inl EIO, [])"
| "io_read_line_loop buffer_len line ch_prev (ch # fd) =
     (if length line \<ge> buffer_len - 1 then (Inl EIO, fd)
      else if ch_prev = CR \<and> ch = LF then (Inr (butlast line), fd)
      else io_read_line_loop buffer_len (line @ [ch]) ch fd)"

definition io_read_line_crlf :: "istream \<Rightarrow> nat \<Rightarrow> (errno + string) \<times> istream" where
  "io_read_line_crlf fd buffer_len =
     (if buffer_len < 1 then (Inl EINVAL, fd)
      else io_read_line_loop buffer_len [] (CHR 0x00) fd)"

text \<open>
  \<^verbatim>\<open>io_encode_b64\<close> hands the bytes to OpenSSL's base64 filter with line breaks switched
  off. The filter is not part of the repository; \<open>b64_encode\<close> is the encoding of
  RFC 4648, section 4, which it implements.
\<close>

definition b64_alphabet :: string where
  "b64_alphabet = ''ABCDEFGHIJKLMNOPQRSTUVWXYZabcdefghijklmnopqrstuvwxyz0123456789+/''"

definition b64_digit :: "nat \<Rightarrow> char" where
  "b64_digit n = b64_alphabet ! (n mod 64)"

fun b64_encode :: "string \<Rightarrow> string" where
  "b64_encode (a # b # c # bs) =
     (let n = (of_char a :: nat) * 65536 + of_char b * 256 + of_char c in
      [b64_digit (n div 262144), b64_digit (n div 4096), b64_digit (n div 64), b64_digit n]
      @ b64_encode bs)"
| "b64_encode [a, b] =
     (let n = (of_char a :: nat) * 65536 + of_char b * 256 in
      [b64_digit (n div 262144), b64_digit (n div 4096), b64_digit (n div 64), CHR ''='']) "
| "b64_encode [a] =
     (let n = (of_char a :: nat) * 65536 in
      [b64_digit (n div 262144), b64_digit (n div 4096), CHR ''='', CHR ''=''])"
| "b64_encode [] = []"

definition io_encode_b64 :: "ostream \<Rightarrow> string \<Rightarrow> ostream" where
  "io_encode_b64 out bytes = fputs (b64_encode bytes) out"

section \<open>SHA-1\<close>

text \<open>
  \<^verbatim>\<open>SHA1\<close> is OpenSSL's and not part of the repository; this is the function of
  FIPS 180-4 that it computes. The message is padded to a multiple of 64 bytes; each block
  of 16 big-endian words is expanded to 80 words, and four stages of 20 rounds update
  five words of state. A 32-bit word is a natural number below \<open>2 ^ 32\<close>, with the
  wrap-around written out.
\<close>

definition add32 :: "nat \<Rightarrow> nat \<Rightarrow> nat" where
  "add32 x y = (x + y) mod 4294967296"

definition rotl32 :: "nat \<Rightarrow> nat \<Rightarrow> nat" where
  "rotl32 n w = (w * 2 ^ n) mod 4294967296 + w div 2 ^ (32 - n)"

definition sha1_pad :: "string \<Rightarrow> string" where
  "sha1_pad m =
     m @ [CHR 0x80] @ replicate ((119 - length m mod 64) mod 64) (CHR 0x00)
       @ htobe64 (of_nat (8 * length m))"

fun be32_words :: "string \<Rightarrow> nat list" where
  "be32_words (a # b # c # d # bs) =
     (of_char a * 16777216 + of_char b * 65536 + of_char c * 256 + of_char d) # be32_words bs"
| "be32_words bs = []"

text \<open>The message schedule, most recent word first.\<close>

fun sha1_expand :: "nat \<Rightarrow> nat list \<Rightarrow> nat list" where
  "sha1_expand 0 ws = ws"
| "sha1_expand (Suc n) ws =
     sha1_expand n (rotl32 1 (ws ! 2 XOR ws ! 7 XOR ws ! 13 XOR ws ! 15) # ws)"

type_synonym sha1_state = "nat \<times> nat \<times> nat \<times> nat \<times> nat"

definition sha1_ch :: "nat \<Rightarrow> nat \<Rightarrow> nat \<Rightarrow> nat" where
  "sha1_ch b c d = (b AND c) OR ((b XOR 4294967295) AND d)"

definition sha1_parity :: "nat \<Rightarrow> nat \<Rightarrow> nat \<Rightarrow> nat" where
  "sha1_parity b c d = b XOR c XOR d"

definition sha1_maj :: "nat \<Rightarrow> nat \<Rightarrow> nat \<Rightarrow> nat" where
  "sha1_maj b c d = (b AND c) OR (b AND d) OR (c AND d)"

text \<open>One stage: the rounds that share the function \<open>f\<close> and the constant \<open>k\<close>, one
  round for each word of the schedule handed in.\<close>

fun sha1_stage :: "(nat \<Rightarrow> nat \<Rightarrow> nat \<Rightarrow> nat) \<Rightarrow> nat \<Rightarrow> nat list \<Rightarrow> sha1_state \<Rightarrow> sha1_state" where
  "sha1_stage f k [] st = st"
| "sha1_stage f k (w # ws) (a, b, c, d, e) =
     sha1_stage f k ws
       (add32 (add32 (add32 (add32 (rotl32 5 a) (f b c d)) e) k) w, a, rotl32 30 b, c, d)"

definition sha1_rounds :: "nat list \<Rightarrow> sha1_state \<Rightarrow> sha1_state" where
  "sha1_rounds ws st =
     sha1_stage sha1_parity 0xCA62C1D6 (take 20 (drop 60 ws))
       (sha1_stage sha1_maj 0x8F1BBCDC (take 20 (drop 40 ws))
          (sha1_stage sha1_parity 0x6ED9EBA1 (take 20 (drop 20 ws))
             (sha1_stage sha1_ch 0x5A827999 (take 20 ws) st)))"

definition sha1_block :: "sha1_state \<Rightarrow> string \<Rightarrow> sha1_state" where
  "sha1_block st block =
     (case st of (h0, h1, h2, h3, h4) \<Rightarrow>
        (case sha1_rounds (rev (sha1_expand 64 (rev (be32_words block)))) st of
           (a, b, c, d, e) \<Rightarrow>
             (add32 h0 a, add32 h1 b, add32 h2 c, add32 h3 d, add32 h4 e)))"

function sha1_blocks :: "sha1_state \<Rightarrow> string \<Rightarrow> sha1_state" where
  "sha1_blocks st m =
     (if m = [] then st else sha1_blocks (sha1_block st (take 64 m)) (drop 64 m))"
  by pat_completeness auto
termination
  by (relation "measure (\<lambda>(st, m). length m)") auto

definition be32_bytes :: "nat \<Rightarrow> string" where
  "be32_bytes w = [char_of (w div 16777216), char_of (w div 65536), char_of (w div 256), char_of w]"

definition SHA1 :: "string \<Rightarrow> string" where
  "SHA1 m =
     (let p = sha1_pad m in
      case sha1_blocks (0x67452301, 0xEFCDAB89, 0x98BADCFE, 0x10325476, 0xC3D2E1F0) p of
        (h0, h1, h2, h3, h4) \<Rightarrow>
          be32_bytes h0 @ be32_bytes h1 @ be32_bytes h2 @ be32_bytes h3 @ be32_bytes h4)"

section \<open>http.h, http.c: constants\<close>

datatype HTTP_Method =
  M_UNKNOWN | M_GET | M_HEAD | M_POST | M_PUT | M_PATH | M_DELETE | M_OPTIONS | M_TRACE

type_synonym Http_Headers = "string Hashtable"

definition H_CONTENT_LENGTH :: string where "H_CONTENT_LENGTH = ''content-length''"
definition H_EXPECT :: string where "H_EXPECT = ''expect''"
definition H_CONNECTION :: string where "H_CONNECTION = ''connection''"
definition H_UPGRADE :: string where "H_UPGRADE = ''upgrade''"
definition HV_EXPECT_100_CONTINUE :: string where "HV_EXPECT_100_CONTINUE = ''100-continue''"

definition MAX_HTTP_REQ :: nat where "MAX_HTTP_REQ = 8192"
definition MAX_HTTP_HEADER :: nat where "MAX_HTTP_HEADER = 8192"

definition HTTP_OK :: int where "HTTP_OK = 200"
definition HTTP_CREATED :: int where "HTTP_CREATED = 201"
definition HTTP_ACCEPTED :: int where "HTTP_ACCEPTED = 202"
definition HTTP_BAD_REQUEST :: int where "HTTP_BAD_REQUEST = 400"
definition HTTP_NOT_FOUND :: int where "HTTP_NOT_FOUND = 404"
definition HTTP_METHOD_NOT_ALLOWED :: int where "HTTP_METHOD_NOT_ALLOWED = 405"

definition HTTP_OK_REASON :: string where "HTTP_OK_REASON = ''OK''"
definition HTTP_CREATED_REASON :: string where "HTTP_CREATED_REASON = ''Created''"
definition HTTP_ACCEPTED_REASON :: string where "HTTP_ACCEPTED_REASON = ''Accepted''"
definition HTTP_BAD_REQUEST_REASON :: string where "HTTP_BAD_REQUEST_REASON = ''Bad Request''"
definition HTTP_NOT_FOUND_REASON :: string where "HTTP_NOT_FOUND_REASON = ''Not Found''"
definition HTTP_METHOD_NOT_ALLOWED_REASON :: string where
  "HTTP_METHOD_NOT_ALLOWED_REASON = ''Method Not Allowed''"

section \<open>ws.c: handshake and session\<close>

definition H_SEC_WEBSOCKET_KEY :: string where "H_SEC_WEBSOCKET_KEY = ''sec-websocket-key''"
definition H_SEC_WEBSOCKET_EXT :: string where "H_SEC_WEBSOCKET_EXT = ''sec-websocket-extensions''"
definition H_SEC_WEBSOCKET_ACCEPT :: string where "H_SEC_WEBSOCKET_ACCEPT = ''sec-websocket-accept''"
definition WS_UPGRADE :: string where "WS_UPGRADE = ''websocket''"
definition WS_MAGIC :: string where "WS_MAGIC = ''258EAFA5-E914-47DA-95CA-C5AB0DC85B11''"

datatype WS_Msg_Type = WS_ERROR | WS_CLOSE | WS_MSG_TXT | WS_MSG_BIN

definition WS_STATUS_NORMAL :: "16 word" where "WS_STATUS_NORMAL = 1000"
definition WS_STATUS_GOING_AWAY :: "16 word" where "WS_STATUS_GOING_AWAY = 1001"
definition WS_STATUS_PROTOCOL_ERROR :: "16 word" where "WS_STATUS_PROTOCOL_ERROR = 1002"
definition WS_STATUS_CANT_ACCEPT :: "16 word" where "WS_STATUS_CANT_ACCEPT = 1003"

text \<open>\<^verbatim>\<open>_ws_handshake\<close> (an Isabelle name cannot start with an underscore).\<close>

definition ws_handshake :: "ostream \<Rightarrow> Http_Headers \<Rightarrow> bool \<times> ostream" where
  "ws_handshake f_out headers =
     (if \<not> sz_equal_ignore_case (Some WS_UPGRADE) (ht_get headers H_UPGRADE) then (False, f_out)
      else
        (case ht_get headers H_SEC_WEBSOCKET_KEY of
           None \<Rightarrow> (False, f_out)
         | Some ws_key \<Rightarrow>
             let o1 = fputs (''HTTP/1.1 101 Switching Protocols'' @ CRLF) f_out;
                 o2 = fputs (H_CONNECTION @ '': '' @ H_UPGRADE @ CRLF) o1;
                 o3 = fputs (H_UPGRADE @ '': '' @ WS_UPGRADE @ CRLF) o2;
                 o4 = fputs (H_SEC_WEBSOCKET_ACCEPT @ '': '') o3;
                 ws_accept = sz_cat ws_key WS_MAGIC;
                 hash_bytes = SHA1 ws_accept;
                 o5 = io_encode_b64 o4 hash_bytes;
                 o6 = fputs (CRLF @ CRLF) o5
             in (True, o6)))"

text \<open>
  \<^verbatim>\<open>struct Websocket_S\<close>. A \<^verbatim>\<open>FILE *\<close> that \<^verbatim>\<open>ws_close\<close> sets to \<^verbatim>\<open>NULL\<close> is an
  option. The message is the first \<open>ws_buff_len\<close> bytes of \<open>ws_buff\<close>. The fields
  \<^verbatim>\<open>fd_client\<close> and \<^verbatim>\<open>ping_sent_count\<close> are never written or read and are left out.
\<close>

record Websocket =
  ws_f_in :: "istream option"
  ws_f_out :: "ostream option"
  ws_is_masked_client :: bool
  ws_df :: "Data_Frame option"
  ws_buff :: string
  ws_buff_len :: nat
  ws_status_code :: "16 word"
  ws_ping_recv_count :: "16 word"
  ws_pong_recv_count :: "16 word"

text \<open>\<^verbatim>\<open>_ws_create\<close>: the result is the websocket (\<open>None\<close> for \<^verbatim>\<open>NULL\<close>) and the output
  stream after the PING.\<close>

definition ws_create :: "istream \<Rightarrow> ostream \<Rightarrow> bool \<Rightarrow> Websocket option \<times> ostream" where
  "ws_create f_in f_out masked_client =
     (case write_dataframe f_out (alloc_dataframe OC_PING True []) None of
        (False, f_out', d) \<Rightarrow> (None, f_out')
      | (True, f_out', d) \<Rightarrow>
          (Some \<lparr>ws_f_in = Some f_in, ws_f_out = Some f_out', ws_is_masked_client = masked_client,
                  ws_df = Some d, ws_buff = [], ws_buff_len = 0, ws_status_code = 0,
                  ws_ping_recv_count = 0, ws_pong_recv_count = 0\<rparr>, f_out'))"

text \<open>
  \<^verbatim>\<open>_ws_read\<close>. One pass of its \<^verbatim>\<open>for(;;)\<close> is \<open>ws_read_frame\<close>: it either returns
  (\<open>Return\<close>, with the \<^verbatim>\<open>char\<close> returned) or goes round again (\<open>Again\<close>, with the new
  \<^verbatim>\<open>opcode_prev\<close>). The local \<^verbatim>\<open>opcode\<close> and \<^verbatim>\<open>opcode_prev\<close> are \<^verbatim>\<open>char\<close>s that hold
  an opcode or \<open>-1\<close>. Reading from a closed websocket is undefined in C; here it returns
  \<^verbatim>\<open>WS_ERROR\<close> (0), and a PONG for a closed output is not written.
\<close>

datatype ('r, 's) iteration = Return 'r | Again 's

definition ws_read_frame ::
  "int \<Rightarrow> Websocket \<Rightarrow> (int \<times> Websocket, int \<times> Websocket) iteration" where
  "ws_read_frame opcode_prev ws =
     (case ws_f_in ws of
        None \<Rightarrow> Return (0, ws)
      | Some f \<Rightarrow>
          (case read_dataframe f (ws_is_masked_client ws) of
             (None, f') \<Rightarrow> Return (0, ws\<lparr>ws_f_in := Some f', ws_df := None\<rparr>)
           | (Some d, f') \<Rightarrow>
               let ws1 = ws\<lparr>ws_f_in := Some f', ws_df := Some d\<rparr>;
                   oc = (if opcode d = OC_CONT then opcode_prev else int (opcode d));
                   ws2 = (if opcode d = OC_CONT then ws1 else ws1\<lparr>ws_buff_len := 0\<rparr>)
               in
               if oc = int OC_PING then
                 (let ws3 = ws2\<lparr>ws_ping_recv_count := ws_ping_recv_count ws2 + 1\<rparr>;
                      pong = d\<lparr>opcode := OC_PONG\<rparr>;
                      ws4 = (case ws_f_out ws3 of
                               None \<Rightarrow> ws3\<lparr>ws_df := Some pong\<rparr>
                             | Some out \<Rightarrow>
                                 (case write_dataframe out pong None of
                                    (ok, out', pong') \<Rightarrow>
                                      ws3\<lparr>ws_f_out := Some out', ws_df := Some pong'\<rparr>))
                  in Again (if fin d then - 1 else oc, ws4))
               else if oc = int OC_PONG then
                 Again (if fin d then - 1 else oc,
                        ws2\<lparr>ws_pong_recv_count := ws_pong_recv_count ws2 + 1\<rparr>)
               else if oc = int OC_CLOSE then
                 (let status_code = (if df_len d \<ge> 2 then be16toh (take 2 (payload d)) else 0)
                  in Return (int OC_CLOSE, ws2\<lparr>ws_status_code := status_code\<rparr>))
               else if oc = int OC_TEXT \<or> oc = int OC_BIN then
                 (case mem_append (ws_buff ws2) (ws_buff_len ws2) (payload d) of
                    (b, l) \<Rightarrow>
                      let ws3 = ws2\<lparr>ws_buff := b, ws_buff_len := l\<rparr> in
                      if fin d then Return (oc, ws3) else Again (oc, ws3))
               else Return (- 1, ws2)))"

definition ws_in_left :: "Websocket \<Rightarrow> nat" where
  "ws_in_left ws = (case ws_f_in ws of None \<Rightarrow> 0 | Some f \<Rightarrow> length f)"

text \<open>Every frame read takes at least its two header bytes from the input, so the loop of
  \<^verbatim>\<open>_ws_read\<close> ends.\<close>

lemma fread_Some_length: "fread n f = (Some x, f') \<Longrightarrow> length f' + n = length f"
  by (auto simp: fread_def split: if_splits)

lemma fread_length_le: "fread n f = (r, f') \<Longrightarrow> length f' \<le> length f"
  by (auto simp: fread_def split: if_splits)

lemma read_length_le: "read_length dfh f = (r, f') \<Longrightarrow> length f' \<le> length f"
  by (auto simp: read_length_def Let_def split: if_splits prod.splits option.splits dest: fread_length_le)

lemma read_mask_le: "read_mask dfh f = (r, f') \<Longrightarrow> length f' \<le> length f"
  by (auto simp: read_mask_def split: if_splits prod.splits option.splits dest: fread_length_le)

lemma read_payload_le: "read_payload dfh l mk f = (r, f') \<Longrightarrow> length f' \<le> length f"
  by (auto simp: read_payload_def split: if_splits prod.splits option.splits dest: fread_length_le)

lemma read_dataframe_shrinks:
  assumes "read_dataframe f rm = (Some d, f')"
  shows "length f' + 2 \<le> length f"
proof -
  obtain hb f1 where h: "fread 2 f = (Some hb, f1)"
    using assms by (auto simp: read_dataframe_def split: prod.splits option.splits)
  have l1: "length f1 + 2 = length f" using fread_Some_length[OF h] .
  have "length f' \<le> length f1"
    using assms h
    by (auto simp: read_dataframe_def Let_def split: prod.splits option.splits if_splits
        dest!: read_length_le read_mask_le read_payload_le)
  then show ?thesis using l1 by simp
qed

lemma ws_read_frame_Again:
  assumes "ws_read_frame prev ws = Again (prev', ws')"
  shows "ws_in_left ws' < ws_in_left ws"
  using assms
  by (auto simp: ws_read_frame_def ws_in_left_def Let_def
      split: option.splits prod.splits if_splits dest!: read_dataframe_shrinks)

function ws_read_loop :: "int \<Rightarrow> Websocket \<Rightarrow> int \<times> Websocket" where
  "ws_read_loop opcode_prev ws =
     (case ws_read_frame opcode_prev ws of
        Return r \<Rightarrow> r
      | Again (opcode_prev', ws') \<Rightarrow> ws_read_loop opcode_prev' ws')"
  by pat_completeness auto
termination
  by (relation "measure (\<lambda>(p, ws). ws_in_left ws)") (auto dest: ws_read_frame_Again)

definition ws_read :: "Websocket \<Rightarrow> int \<times> Websocket" where
  "ws_read ws = ws_read_loop (- 1) ws"

text \<open>\<^verbatim>\<open>_ws_send_close\<close>, \<^verbatim>\<open>_ws_send_msg\<close>; writing to a closed websocket, undefined in C,
  fails here.\<close>

definition ws_send_close :: "Websocket \<Rightarrow> 16 word \<Rightarrow> bool \<times> Websocket" where
  "ws_send_close ws status_code =
     (case ws_f_out ws of
        None \<Rightarrow> (False, ws)
      | Some out \<Rightarrow>
          (case write_dataframe out (alloc_dataframe OC_CLOSE True (htobe16 status_code)) None of
             (ok, out', d) \<Rightarrow> (ok, ws\<lparr>ws_f_out := Some out'\<rparr>)))"

definition ws_send_msg :: "Websocket \<Rightarrow> WS_Msg_Type \<Rightarrow> string \<Rightarrow> bool \<times> Websocket" where
  "ws_send_msg ws type msg =
     (case ws_f_out ws of
        None \<Rightarrow> (False, ws)
      | Some out \<Rightarrow>
          (case write_dataframe out
                  (alloc_dataframe (if type = WS_MSG_TXT then OC_TEXT else OC_BIN) True msg) None of
             (ok, out', d) \<Rightarrow> (ok, ws\<lparr>ws_f_out := Some out'\<rparr>)))"

definition ws_is_upgradable :: "Http_Headers \<Rightarrow> bool" where
  "ws_is_upgradable headers =
     (case ht_get headers H_UPGRADE of
        None \<Rightarrow> False
      | Some valT \<Rightarrow> sz_equal_ignore_case (Some valT) (Some WS_UPGRADE))"

definition ws_upgrade ::
  "istream \<Rightarrow> ostream \<Rightarrow> Http_Headers \<Rightarrow> string \<Rightarrow> bool \<Rightarrow> Websocket option \<times> ostream" where
  "ws_upgrade f_in f_out headers uri masked_client =
     (case ws_handshake f_out headers of
        (False, f_out') \<Rightarrow> (None, f_out')
      | (True, f_out') \<Rightarrow> ws_create f_in f_out' masked_client)"

definition ws_is_open :: "Websocket \<Rightarrow> bool" where
  "ws_is_open ws = (ws_f_in ws \<noteq> None \<and> ws_f_out ws \<noteq> None)"

text \<open>\<^verbatim>\<open>ws_close\<close> and \<^verbatim>\<open>ws_free\<close> give back, next to the websocket, the output stream as
  it was when it was closed (\<open>None\<close> when it was closed before): what the peer has
  received.\<close>

definition ws_close :: "Websocket \<Rightarrow> 16 word \<Rightarrow> Websocket \<times> ostream option" where
  "ws_close ws code =
     (if ws_f_out ws = None then (ws, None)
      else (case ws_send_close ws code of
              (ok, ws') \<Rightarrow> (ws'\<lparr>ws_f_in := None, ws_f_out := None\<rparr>, ws_f_out ws')))"

definition ws_free :: "Websocket \<Rightarrow> ostream option" where
  "ws_free ws = snd (ws_close ws WS_STATUS_GOING_AWAY)"

definition ws_wait :: "Websocket \<Rightarrow> WS_Msg_Type \<times> Websocket" where
  "ws_wait ws =
     (case ws_read ws of
        (oc, ws') \<Rightarrow>
          (if oc = int OC_CLOSE then WS_CLOSE
           else if oc = int OC_BIN then WS_MSG_BIN
           else if oc = int OC_TEXT then WS_MSG_TXT
           else WS_ERROR, ws'))"

definition ws_get_msg :: "Websocket \<Rightarrow> string \<times> nat" where
  "ws_get_msg ws = (ws_buff ws, ws_buff_len ws)"

definition ws_status :: "Websocket \<Rightarrow> 16 word" where
  "ws_status ws = ws_status_code ws"

section \<open>The C library and the file system\<close>

text \<open>
  The functions of the C library that the handler's decisions rest on, by their
  specification in ISO C and POSIX. \<^verbatim>\<open>atoi\<close> is \<^verbatim>\<open>(int) strtol(s, NULL, 10)\<close>: white
  space, an optional sign, then digits; \<^verbatim>\<open>strtol\<close> saturates at the bounds of a 64-bit
  \<^verbatim>\<open>long\<close> and the conversion to \<^verbatim>\<open>int\<close> keeps the low 32 bits.
\<close>

definition isspace :: "char \<Rightarrow> bool" where
  "isspace c = (c \<in> set [CHR '' '', CHR 0x09, CHR 0x0A, CHR 0x0B, CHR 0x0C, CHR 0x0D])"

definition isdigit :: "char \<Rightarrow> bool" where
  "isdigit c = (48 \<le> (of_char c :: nat) \<and> (of_char c :: nat) \<le> 57)"

definition digits_value :: "string \<Rightarrow> nat" where
  "digits_value ds = foldl (\<lambda>n c. 10 * n + (of_char c - 48)) 0 ds"

definition skip_sign :: "string \<Rightarrow> bool \<times> string" where
  "skip_sign s =
     (case s of
        [] \<Rightarrow> (False, [])
      | c # r \<Rightarrow> if c = CHR ''-'' then (True, r) else if c = CHR ''+'' then (False, r) else (False, s))"

definition strtol :: "string \<Rightarrow> int" where
  "strtol s =
     (case skip_sign (dropWhile isspace s) of
        (neg, s2) \<Rightarrow>
          let v = int (digits_value (takeWhile isdigit s2)) in
          if neg then max (- 9223372036854775808) (- v) else min 9223372036854775807 v)"

definition atoi :: "string \<Rightarrow> int" where
  "atoi s = sint (word_of_int (strtol s) :: 32 word)"

text \<open>
  \<^verbatim>\<open>sscanf(version, "HTTP/%d.%d", ...)\<close>: the number of integers converted. The literal
  characters must match; each \<^verbatim>\<open>%d\<close> skips white space and needs an optional sign and at
  least one digit. The handler only compares the count with 2.
\<close>

definition scan_d :: "string \<Rightarrow> string option" where
  "scan_d s =
     (case skip_sign (dropWhile isspace s) of
        (neg, s2) \<Rightarrow> if takeWhile isdigit s2 = [] then None else Some (dropWhile isdigit s2))"

definition sscanf_http_version :: "string \<Rightarrow> nat" where
  "sscanf_http_version version =
     (if take 5 version \<noteq> ''HTTP/'' then 0
      else (case scan_d (drop 5 version) of
              None \<Rightarrow> 0
            | Some r1 \<Rightarrow>
                (case r1 of
                   [] \<Rightarrow> 1
                 | c # r2 \<Rightarrow>
                     if c \<noteq> CHR ''.'' then 1
                     else (case scan_d r2 of None \<Rightarrow> 1 | Some r3 \<Rightarrow> 2))))"

text \<open>\<^verbatim>\<open>%d\<close> of \<^verbatim>\<open>fprintf\<close>: the decimal digits of an \<^verbatim>\<open>int\<close>.\<close>

fun show_nat :: "nat \<Rightarrow> string" where
  "show_nat n =
     (if n < 10 then [char_of (48 + n)] else show_nat (n div 10) @ [char_of (48 + n mod 10)])"

definition show_int :: "int \<Rightarrow> string" where
  "show_int i = (if i < 0 then CHR ''-'' # show_nat (nat (- i)) else show_nat (nat i))"

text \<open>
  The file system as the handler sees it. \<open>fs_canon\<close> resolves \<open>.\<close>, \<open>..\<close> and symbolic links
  of a path, \<open>fs_stat\<close> is \<^verbatim>\<open>stat\<close> on a canonical path (\<open>None\<close> when nothing is there) and
  \<open>fs_open\<close> the bytes that \<^verbatim>\<open>open\<close> and \<^verbatim>\<open>read\<close> deliver (\<open>None\<close> when the file cannot be
  opened). \<^verbatim>\<open>realpath\<close> of POSIX returns the canonical path of a file that exists and fails
  otherwise.
\<close>

record stat =
  st_isreg :: bool
  st_isdir :: bool
  st_size :: nat
  st_blksize :: nat

record filesys =
  fs_canon :: "string \<Rightarrow> errno + string"
  fs_stat :: "string \<Rightarrow> stat option"
  fs_open :: "string \<Rightarrow> string option"

definition realpath :: "filesys \<Rightarrow> string \<Rightarrow> errno + string" where
  "realpath fs path =
     (case fs_canon fs path of
        Inl e \<Rightarrow> Inl e
      | Inr p \<Rightarrow> (case fs_stat fs p of None \<Rightarrow> Inl ENOENT | Some st \<Rightarrow> Inr p))"

definition io_is_dir :: "filesys \<Rightarrow> string \<Rightarrow> bool" where
  "io_is_dir fs path =
     (case fs_stat fs path of
        None \<Rightarrow> False
      | Some s \<Rightarrow> if \<not> st_isdir s then False else True)"

text \<open>\<^verbatim>\<open>read(fd, buf, n)\<close> on a descriptor that is a list of bytes: the bytes that are there,
  at most \<open>n\<close>; 0 at the end. It never fails, so the branch \<^verbatim>\<open>cb_read < 0\<close> of the
  callers is not taken.\<close>

definition sys_read :: "nat \<Rightarrow> istream \<Rightarrow> string \<times> istream" where
  "sys_read n fd = (take n fd, drop n fd)"

text \<open>\<^verbatim>\<open>io_copy_stream\<close>: blocks of \<^verbatim>\<open>buff_size\<close> bytes until the input ends or a write
  falls short; the result is the \<^verbatim>\<open>size_t\<close> returned (\<open>-1\<close> wraps).\<close>

function io_copy_loop :: "64 word \<Rightarrow> ostream \<Rightarrow> istream \<Rightarrow> nat \<Rightarrow> 64 word \<times> ostream" where
  "io_copy_loop tot fd_out fd_in buff_size =
     (case sys_read buff_size fd_in of
        (buff, fd_in') \<Rightarrow>
          if length buff > 0 then
            (case fwrite buff fd_out of
               (False, fd_out') \<Rightarrow> (- 1, fd_out')
             | (True, fd_out') \<Rightarrow>
                 io_copy_loop (tot + of_nat (length buff)) fd_out' fd_in' buff_size)
          else (tot, fd_out))"
  by pat_completeness auto
termination
  by (relation "measure (\<lambda>(t, out, inp, n). length inp)") (auto simp: sys_read_def)

definition io_copy_stream :: "ostream \<Rightarrow> istream \<Rightarrow> nat \<Rightarrow> 64 word \<times> ostream" where
  "io_copy_stream fd_out fd_in buff_size = io_copy_loop 0 fd_out fd_in buff_size"

section \<open>http.c: the request handler\<close>

text \<open>
  The process-wide \<^verbatim>\<open>_static_files_dir\<close> and \<^verbatim>\<open>_static_files_dir_len\<close>, written by
  \<^verbatim>\<open>http_init\<close> and read by \<^verbatim>\<open>realpath_uri\<close>, are a value that \<open>http_init\<close> returns
  and the handler takes. \<^verbatim>\<open>PATH_MAX\<close> comes from \<^verbatim>\<open>limits.h\<close> and is a parameter.
\<close>

record http_config =
  static_files_dir :: string
  static_files_dir_len :: nat

definition http_init :: "filesys \<Rightarrow> string \<Rightarrow> errno + http_config" where
  "http_init fs icky_files_dir =
     (case realpath fs icky_files_dir of
        Inl e \<Rightarrow> Inl e
      | Inr dir \<Rightarrow>
          if dir = ''/'' then Inl EPERM
          else
            (let dir1 = (if dir \<noteq> [] \<and> last dir = CHR ''/'' then butlast dir else dir);
                 l = length dir1
             in if l = 0 then Inl EPERM
                else if \<not> io_is_dir fs dir1 then Inl ENOTDIR
                else Inr \<lparr>static_files_dir = dir1, static_files_dir_len = l\<rparr>))"

definition realpath_uri :: "filesys \<Rightarrow> nat \<Rightarrow> http_config \<Rightarrow> string \<Rightarrow> errno + string" where
  "realpath_uri fs PATH_MAX cfg uri =
     (if static_files_dir_len cfg + length uri \<ge> PATH_MAX then Inl ENAMETOOLONG
      else
        (case realpath fs (static_files_dir cfg @ uri) of
           Inl e \<Rightarrow> Inl e
         | Inr path \<Rightarrow>
             if \<not> sz_starts_with path (static_files_dir cfg) then Inl EPERM else Inr path))"

definition http_method :: "string \<Rightarrow> HTTP_Method" where
  "http_method sz_method =
     (if sz_equal_ignore_case (Some ''GET'') (Some sz_method) then M_GET
      else if sz_equal_ignore_case (Some ''POST'') (Some sz_method) then M_POST
      else if sz_equal_ignore_case (Some ''PUT'') (Some sz_method) then M_PUT
      else if sz_equal_ignore_case (Some ''DELETE'') (Some sz_method) then M_DELETE
      else M_UNKNOWN)"

text \<open>\<^verbatim>\<open>parse_headers\<close>: \<open>parse_header_line\<close> is the body of its loop for one line.\<close>

definition parse_header_line :: "Http_Headers \<Rightarrow> string \<Rightarrow> Http_Headers" where
  "parse_header_line headers h_buff =
     (let header = c_str h_buff in
      case strtok header '':'' of
        (None, rest) \<Rightarrow> headers
      | (Some name, rest) \<Rightarrow>
          (case strtok rest [LF, CR] of
             (None, rest') \<Rightarrow> headers
           | (Some val, rest') \<Rightarrow> ht_put headers (sz_to_lower name) (Some (sz_trim val))))"

lemma io_read_line_loop_le:
  "io_read_line_loop n line prev fd = (r, fd') \<Longrightarrow> length fd' \<le> length fd"
proof (induction fd arbitrary: line prev)
  case Nil
  then show ?case by simp
next
  case (Cons ch fd)
  show ?case
  proof (cases "length line \<ge> n - 1 \<or> (prev = CR \<and> ch = LF)")
    case True
    then show ?thesis using Cons.prems by (auto split: if_splits)
  next
    case False
    then have "io_read_line_loop n (line @ [ch]) ch fd = (r, fd')"
      using Cons.prems by (auto split: if_splits)
    from Cons.IH[OF this] show ?thesis by simp
  qed
qed

lemma io_read_line_loop_Inr:
  "io_read_line_loop n line prev fd = (Inr l, fd') \<Longrightarrow> length fd' < length fd"
  by (cases fd) (auto split: if_splits dest: io_read_line_loop_le)

lemma io_read_line_crlf_Inr:
  "io_read_line_crlf fd n = (Inr l, fd') \<Longrightarrow> length fd' < length fd"
  by (auto simp: io_read_line_crlf_def split: if_splits dest: io_read_line_loop_Inr)

function parse_headers_loop :: "Http_Headers \<Rightarrow> istream \<Rightarrow> Http_Headers option \<times> istream" where
  "parse_headers_loop headers fd =
     (case io_read_line_crlf fd MAX_HTTP_HEADER of
        (Inl e, fd') \<Rightarrow> (None, fd')
      | (Inr h_buff, fd') \<Rightarrow>
          if length h_buff > 0 then parse_headers_loop (parse_header_line headers h_buff) fd'
          else (Some headers, fd'))"
  by pat_completeness auto
termination
  by (relation "measure (\<lambda>(h, fd). length fd)") (auto dest: io_read_line_crlf_Inr[OF sym])

definition parse_headers :: "istream \<Rightarrow> Http_Headers option \<times> istream" where
  "parse_headers fd = parse_headers_loop (ht_create 0 None) fd"

text \<open>The loop of \<^verbatim>\<open>dispatch_http\<close> that reads the request body: the result tells whether
  \<^verbatim>\<open>req_content_len\<close> bytes arrived.\<close>

function read_body :: "nat \<Rightarrow> nat \<Rightarrow> istream \<Rightarrow> bool \<times> istream" where
  "read_body cb_total req_content_len fd_in =
     (if cb_total < req_content_len then
        (case sys_read (req_content_len - cb_total) fd_in of
           (buff, fd_in') \<Rightarrow>
             if length buff = 0 then (False, fd_in')
             else read_body (cb_total + length buff) req_content_len fd_in')
      else (True, fd_in))"
  by pat_completeness auto
termination
  by (relation "measure (\<lambda>(t, n, fd). n - t)") (auto simp: sys_read_def min_def)

text \<open>The \<^verbatim>\<open>M_GET\<close> case of \<^verbatim>\<open>dispatch_http\<close>: status, reason, \<^verbatim>\<open>rsp_content_len\<close> (an
  \<^verbatim>\<open>int\<close>), the bytes of the opened file and \<^verbatim>\<open>rsp_block_size\<close>.\<close>

definition http_get ::
  "filesys \<Rightarrow> nat \<Rightarrow> http_config \<Rightarrow> string \<Rightarrow> int \<times> string option \<times> int \<times> string option \<times> nat" where
  "http_get fs PATH_MAX cfg uri0 =
     (let uri = (if uri0 = ''/'' then ''/index.html'' else uri0);
          not_found = (HTTP_NOT_FOUND, Some HTTP_NOT_FOUND_REASON, 0, None, 0)
      in case realpath_uri fs PATH_MAX cfg uri of
           Inl e \<Rightarrow> not_found
         | Inr uri_path \<Rightarrow>
             (case fs_stat fs uri_path of
                None \<Rightarrow> not_found
              | Some uri_stat \<Rightarrow>
                  if \<not> st_isreg uri_stat then not_found
                  else (case fs_open fs uri_path of
                          None \<Rightarrow> not_found
                        | Some content \<Rightarrow>
                            (HTTP_OK, Some HTTP_OK_REASON,
                             sint (of_nat (st_size uri_stat) :: 32 word), Some content,
                             st_blksize uri_stat))))"

text \<open>\<^verbatim>\<open>dispatch_http\<close>: the status returned, and the two streams afterwards.\<close>

definition dispatch_http ::
  "filesys \<Rightarrow> nat \<Rightarrow> http_config \<Rightarrow> istream \<Rightarrow> ostream \<Rightarrow> Http_Headers \<Rightarrow> HTTP_Method \<Rightarrow> string
   \<Rightarrow> int \<times> istream \<times> ostream" where
  "dispatch_http fs PATH_MAX cfg fd_in fd_out headers method uri =
     (let req_content_len =
            (case ht_get headers H_CONTENT_LENGTH of None \<Rightarrow> 0 | Some valT \<Rightarrow> atoi valT);
          fp1 = (case ht_get headers H_EXPECT of
                   None \<Rightarrow> fd_out
                 | Some valT \<Rightarrow>
                     if sz_equal_ignore_case (Some valT) (Some HV_EXPECT_100_CONTINUE)
                     then fputs (''HTTP/1.1 100 Continue'' @ CRLF @ CRLF) fd_out
                     else fd_out)
      in
      case
        (if method = M_POST \<or> method = M_PUT then
           (if req_content_len > 0 then
              (case read_body 0 (nat req_content_len) fd_in of
                 (ok, fd_in') \<Rightarrow>
                   ((if ok then HTTP_CREATED else HTTP_BAD_REQUEST, None, 0, None, 0), fd_in'))
            else ((HTTP_CREATED, None, 0, None, 0), fd_in))
         else if method = M_GET then (http_get fs PATH_MAX cfg uri, fd_in)
         else ((HTTP_METHOD_NOT_ALLOWED, None, 0, None, 0), fd_in))
      of
        ((rsp_code, rsp_reason, rsp_content_len, rsp_fd, rsp_block_size), fd_in') \<Rightarrow>
          let fp2 = fputs (''HTTP/1.1 '' @ show_int rsp_code @ '' '' @
                           (case rsp_reason of None \<Rightarrow> [] | Some r \<Rightarrow> r) @ CRLF) fp1;
              fp3 = (if rsp_content_len > 0
                     then fputs (''Content-Length: '' @ show_int rsp_content_len @ CRLF) fp2
                     else fp2);
              fp4 = fputs CRLF fp3;
              fp5 = (case rsp_fd of
                       None \<Rightarrow> fp4
                     | Some content \<Rightarrow> snd (io_copy_stream fp4 content rsp_block_size))
          in (rsp_code, fd_in', fp5))"

text \<open>
  \<^verbatim>\<open>dispatch_websocket\<close>. One pass of its \<^verbatim>\<open>while(!done)\<close> is \<open>ws_echo_step\<close>: it ends
  with the \<^verbatim>\<open>ret_code\<close>, or has echoed a message. A message takes input, so the loop ends.
\<close>

definition ws_echo_step :: "Websocket \<Rightarrow> (int \<times> Websocket, Websocket) iteration" where
  "ws_echo_step ws =
     (case ws_wait ws of
        (WS_ERROR, ws') \<Rightarrow> Return (- 1, ws')
      | (WS_CLOSE, ws') \<Rightarrow> Return (0, ws')
      | (WS_MSG_BIN, ws') \<Rightarrow>
          (case ws_get_msg ws' of
             (msg, msg_len) \<Rightarrow> Again (snd (ws_send_msg ws' WS_MSG_BIN (take msg_len msg))))
      | (WS_MSG_TXT, ws') \<Rightarrow>
          (case ws_get_msg ws' of
             (msg, msg_len) \<Rightarrow> Again (snd (ws_send_msg ws' WS_MSG_TXT (take msg_len msg)))))"

lemma ws_read_frame_Return:
  assumes "ws_read_frame prev ws = Return (oc, ws')" and "oc \<noteq> 0"
  shows "ws_in_left ws' < ws_in_left ws"
  using assms
  by (auto simp: ws_read_frame_def ws_in_left_def Let_def
      split: option.splits prod.splits if_splits dest!: read_dataframe_shrinks)

lemma ws_read_loop_shrinks:
  "ws_read_loop prev ws = (oc, ws') \<Longrightarrow> oc \<noteq> 0 \<Longrightarrow> ws_in_left ws' < ws_in_left ws"
proof (induction prev ws rule: ws_read_loop.induct)
  case (1 prev ws)
  show ?case
  proof (cases "ws_read_frame prev ws")
    case (Return r)
    then have "ws_read_frame prev ws = Return (oc, ws')"
      using "1.prems"(1) by simp
    then show ?thesis using "1.prems"(2) by (rule ws_read_frame_Return)
  next
    case (Again a)
    obtain p1 ws1 where a: "a = (p1, ws1)" by (cases a)
    have "ws_read_loop p1 ws1 = (oc, ws')"
      using "1.prems"(1) Again a by simp
    from "1.IH"[OF Again a[symmetric] this "1.prems"(2)]
    have "ws_in_left ws' < ws_in_left ws1" .
    moreover have "ws_in_left ws1 < ws_in_left ws"
      using Again a by (auto dest: ws_read_frame_Again)
    ultimately show ?thesis by simp
  qed
qed

lemma ws_send_msg_in_left: "ws_in_left (snd (ws_send_msg ws t m)) = ws_in_left ws"
  by (auto simp: ws_send_msg_def ws_in_left_def split: option.splits prod.splits)

lemma ws_echo_step_Again:
  assumes "ws_echo_step ws = Again ws'"
  shows "ws_in_left ws' < ws_in_left ws"
proof -
  obtain t ws1 where w: "ws_wait ws = (t, ws1)" by (cases "ws_wait ws")
  obtain oc where r: "ws_read_loop (- 1) ws = (oc, ws1)"
    using w by (auto simp: ws_wait_def ws_read_def split: prod.splits)
  have "t = WS_MSG_BIN \<or> t = WS_MSG_TXT"
    using assms w by (cases t) (auto simp: ws_echo_step_def split: prod.splits)
  then have "oc \<noteq> 0"
    using w r by (auto simp: ws_wait_def ws_read_def OC_CLOSE_def OC_BIN_def OC_TEXT_def split: if_splits)
  then have "ws_in_left ws1 < ws_in_left ws"
    using r by (rule ws_read_loop_shrinks[rotated])
  moreover have "ws_in_left ws' = ws_in_left ws1"
    using assms w
    by (cases t) (auto simp: ws_echo_step_def ws_send_msg_in_left split: prod.splits)
  ultimately show ?thesis by simp
qed

function ws_echo_loop :: "Websocket \<Rightarrow> int \<times> Websocket" where
  "ws_echo_loop ws =
     (case ws_echo_step ws of
        Return r \<Rightarrow> r
      | Again ws' \<Rightarrow> ws_echo_loop ws')"
  by pat_completeness auto
termination
  by (relation "measure ws_in_left") (auto dest: ws_echo_step_Again)

definition dispatch_websocket ::
  "istream \<Rightarrow> ostream \<Rightarrow> Http_Headers \<Rightarrow> HTTP_Method \<Rightarrow> string \<Rightarrow> int \<times> istream \<times> ostream" where
  "dispatch_websocket fd_client_in fd_client_out headers method uri =
     (case ws_upgrade fd_client_in fd_client_out headers uri True of
        (None, f_out) \<Rightarrow> (- 1, fd_client_in, f_out)
      | (Some ws, f_out) \<Rightarrow>
          (case ws_echo_loop ws of
             (ret_code, ws') \<Rightarrow>
               (ret_code,
                (case ws_f_in ws' of None \<Rightarrow> [] | Some f \<Rightarrow> f),
                (case ws_free ws' of None \<Rightarrow> f_out | Some f \<Rightarrow> f))))"

text \<open>\<^verbatim>\<open>http_client_connect\<close>: the status returned, and the two streams afterwards.\<close>

definition http_client_connect ::
  "filesys \<Rightarrow> nat \<Rightarrow> http_config \<Rightarrow> istream \<Rightarrow> ostream \<Rightarrow> int \<times> istream \<times> ostream" where
  "http_client_connect fs PATH_MAX cfg fd_client_in fd_client_out =
     (case io_read_line_crlf fd_client_in (MAX_HTTP_REQ + 1) of
        (Inl e, fd1) \<Rightarrow> (HTTP_BAD_REQUEST, fd1, fd_client_out)
      | (Inr req_line, fd1) \<Rightarrow>
          (case strtok (c_str req_line) '' '' of
             (None, r1) \<Rightarrow> (HTTP_BAD_REQUEST, fd1, fd_client_out)
           | (Some sz_method, r1) \<Rightarrow>
               (case strtok r1 '' '' of
                  (None, r2) \<Rightarrow> (HTTP_BAD_REQUEST, fd1, fd_client_out)
                | (Some uri, r2) \<Rightarrow>
                    (case strtok r2 '' '' of
                       (None, r3) \<Rightarrow> (HTTP_BAD_REQUEST, fd1, fd_client_out)
                     | (Some version, r3) \<Rightarrow>
                         if sscanf_http_version version \<noteq> 2
                         then (HTTP_BAD_REQUEST, fd1, fd_client_out)
                         else
                           (let method = http_method sz_method in
                            if method = M_UNKNOWN
                            then (HTTP_METHOD_NOT_ALLOWED, fd1, fd_client_out)
                            else
                              (case parse_headers fd1 of
                                 (None, fd2) \<Rightarrow> (HTTP_BAD_REQUEST, fd2, fd_client_out)
                               | (Some headers, fd2) \<Rightarrow>
                                   if ws_is_upgradable headers
                                   then dispatch_websocket fd2 fd_client_out headers method uri
                                   else dispatch_http fs PATH_MAX cfg fd2 fd_client_out headers
                                          method uri))))))"

section \<open>Properties of the frame codec\<close>

lemma char_of_nat_bits:
  "char_of (n::nat) = Char (odd n) (odd (n div 2)) (odd (n div 4)) (odd (n div 8))
     (odd (n div 16)) (odd (n div 32)) (odd (n div 64)) (odd (n div 128))"
  by (simp add: char_of_def bit_iff_odd)

lemma of_char_nat_word: "(of_char (char_of (n::nat)) :: 'a::len word) = of_nat (take_bit 8 n)"
proof -
  have "(of_char (char_of n) :: 'a word) = of_nat (of_char (char_of n))"
    by (simp only: of_nat_of_char)
  also have "\<dots> = of_nat (take_bit 8 n)"
    by (simp add: take_bit_eq_mod)
  finally show ?thesis .
qed

lemma of_char_unat_same: "(of_char (char_of (unat (x::'a::len word))) :: 'a word) = take_bit 8 x"
  by (simp add: of_char_nat_word unsigned_take_bit_eq[symmetric])

lemma of_char_unat8: "of_char (char_of (unat (b::8 word))) = b"
  using take_bit_length_eq[of b] by (simp add: of_char_unat_same)

lemma unat_of_char8: "unat (of_char c :: 8 word) = of_char c"
proof -
  have "unat (of_char c :: 8 word) = unat (of_nat (of_char c) :: 8 word)"
    by (simp only: of_nat_of_char)
  also have "\<dots> = of_char c"
    by (simp add: unat_of_nat)
  finally show ?thesis .
qed

lemma char_of_unat_of_char: "char_of (unat (of_char c :: 8 word)) = c"
  by (simp add: unat_of_char8)

lemma xor_char_invol: "xor_char (xor_char a k) k = a"
  by (simp add: xor_char_def of_char_unat8 char_of_unat_of_char ac_simps)



lemma be_step: "push_bit 8 (drop_bit (k + 8) w) OR take_bit 8 (drop_bit k w) = drop_bit k (w::'a::len word)"
  by (rule bit_word_eqI) (auto simp: bit_simps)

lemma be_top16: "take_bit 8 (drop_bit 8 (w::16 word)) = drop_bit 8 w"
  by (rule bit_word_eqI) (auto simp: bit_simps dest: bit_imp_le_length)

lemma be_top64: "take_bit 8 (drop_bit 56 (w::64 word)) = drop_bit 56 w"
  by (rule bit_word_eqI) (auto simp: bit_simps dest: bit_imp_le_length)

lemma be16: "be16toh (htobe16 w) = w"
  using be_step[of 0 w]
  by (simp add: be16toh_def htobe16_def of_char_unat_same be_top16)

lemma be64: "be64toh (htobe64 w) = w"
  using be_step[of 0 w] be_step[of 8 w] be_step[of 16 w] be_step[of 24 w] be_step[of 32 w] be_step[of 40 w] be_step[of 48 w]
  by (simp add: be64toh_def htobe64_def of_char_unat_same be_top64)

lemma fread_append: "length a = n \<Longrightarrow> fread n (a @ b) = (Some a, b)"
  by (simp add: fread_def)

lemma and_0F: "(x::8 word) AND 0x0F = take_bit 4 x"
  by (simp add: take_bit_eq_mask mask_eq_exp_minus_1)

lemma and_7F: "(x::8 word) AND 0x7F = take_bit 7 x"
  by (simp add: take_bit_eq_mask mask_eq_exp_minus_1)

lemma bit_bit_at: "n < 8 \<Longrightarrow> bit (bit_at b n) m \<longleftrightarrow> b \<and> m = n"
  by (auto simp: bit_at_def bit_simps)

lemma take_bit_bit_at: "m \<le> n \<Longrightarrow> take_bit m (bit_at b n) = 0"
  by (rule bit_word_eqI) (auto simp: bit_at_def bit_simps)

lemma header_roundtrip:
  "header_of_bytes (header_bytes h ! 0) (header_bytes h ! 1) =
   h\<lparr>h_opcode := h_opcode h AND 0x0F, h_len := h_len h AND 0x7F\<rparr>"
  by (cases h)
     (simp add: header_of_bytes_def header_bytes_def Let_def of_char_unat8 and_0F and_7F
        take_bit_bit_at bit_or_iff bit_bit_at bit_take_bit_iff)

lemma mask_from_invol: "mask_from k i (mask_from k i ps) = ps"
  by (induction ps arbitrary: i) (simp_all add: xor_char_invol)

lemma length_mask_from: "length (mask_from k i ps) = length ps"
  by (induction ps arbitrary: i) simp_all

lemma fwrite_True: "fwrite bs f = (True, f1) \<Longrightarrow> written f1 = written f @ bs"
  by (auto simp: fwrite_def split: if_splits)

lemma write_header_True:
  assumes "write_header df m f = (True, f1)"
  shows "written f1 = written f @
           header_bytes (make_header df m
             (if df_len df \<le> 125 then of_nat (df_len df)
              else if df_len df \<le> 0xffff then 126 else 127)) @
           (if df_len df \<le> 125 then []
            else if df_len df \<le> 0xffff then htobe16 (of_nat (df_len df))
            else htobe64 (of_nat (df_len df)))"
  using assms
  by (auto simp: write_header_def split: if_splits prod.splits bool.splits dest!: fwrite_True)

lemma write_dataframe_True:
  assumes "write_dataframe f df mk = (True, f', df')"
  shows "written f' = written f @
           header_bytes (make_header df (mk \<noteq> None)
             (if df_len df \<le> 125 then of_nat (df_len df)
              else if df_len df \<le> 0xffff then 126 else 127)) @
           (if df_len df \<le> 125 then []
            else if df_len df \<le> 0xffff then htobe16 (of_nat (df_len df))
            else htobe64 (of_nat (df_len df))) @
           (case mk of None \<Rightarrow> [] | Some k \<Rightarrow> key_bytes k) @ payload df'"
    and "df' = (case mk of None \<Rightarrow> df | Some k \<Rightarrow> df\<lparr>payload := mask_from k 0 (payload df)\<rparr>)"
proof -
  obtain f1 where h: "write_header df (mk \<noteq> None) f = (True, f1)"
    using assms by (auto simp: write_dataframe_def split: prod.splits bool.splits)
  obtain f2 where k: "(case mk of None \<Rightarrow> (True, f1) | Some k \<Rightarrow> fwrite (key_bytes k) f1) = (True, f2)"
    using assms h by (auto simp: write_dataframe_def split: prod.splits bool.splits)
  have w2: "written f2 = written f1 @ (case mk of None \<Rightarrow> [] | Some k \<Rightarrow> key_bytes k)"
    using k by (auto split: option.splits dest: fwrite_True)
  show "df' = (case mk of None \<Rightarrow> df | Some k \<Rightarrow> df\<lparr>payload := mask_from k 0 (payload df)\<rparr>)"
    using assms h k
    by (auto simp: write_dataframe_def df_len_def Let_def split: prod.splits bool.splits if_splits option.splits)
  have "written f' = written f2 @ payload df'"
    using assms h k
    by (auto simp: write_dataframe_def df_len_def Let_def split: prod.splits bool.splits if_splits option.splits dest: fwrite_True)
  then show "written f' = written f @
           header_bytes (make_header df (mk \<noteq> None)
             (if df_len df \<le> 125 then of_nat (df_len df)
              else if df_len df \<le> 0xffff then 126 else 127)) @
           (if df_len df \<le> 125 then []
            else if df_len df \<le> 0xffff then htobe16 (of_nat (df_len df))
            else htobe64 (of_nat (df_len df))) @
           (case mk of None \<Rightarrow> [] | Some k \<Rightarrow> key_bytes k) @ payload df'"
    using write_header_True[OF h] w2 by simp
qed

lemma length_header_bytes: "length (header_bytes h) = 2"
  by (simp add: header_bytes_def)

lemma length_key_bytes: "length (key_bytes k) = 4"
  by (cases k) (simp add: key_bytes_def)

lemma len7_small: "n \<le> 125 \<Longrightarrow> (of_nat n :: 8 word) AND 0x7F = of_nat n"
  by (simp add: and_7F take_bit_of_nat take_bit_nat_eq_self)

lemma unat_len7_small: "n \<le> 125 \<Longrightarrow> unat (of_nat n :: 8 word) = n"
  by (simp add: unat_of_nat)

lemma opcode4: "n < 16 \<Longrightarrow> unat ((of_nat n :: 8 word) AND 0x0F) = n"
  by (simp add: and_0F take_bit_of_nat take_bit_nat_eq_self unat_of_nat)

lemma high_bit_clear: "(of_nat n :: 64 word) AND push_bit 63 1 = 0" if "n < 2 ^ 63"
proof -
  have "\<not> bit n 63" using that by (simp add: bit_iff_odd)
  then have "\<not> bit (of_nat n :: 64 word) 63" by (simp add: bit_of_nat_iff)
  then show ?thesis
    using and_exp_eq_0_iff_not_bit[of "of_nat n :: 64 word" 63] by simp
qed

lemma key_of_key_bytes: "key_of_bytes (key_bytes k) = k"
  by (cases k) (simp add: key_bytes_def key_of_bytes_def)

lemma read_payload_masked:
  assumes "unat len64 = length pl"
  shows "read_payload dfh len64 (Some k) (mask_from k 0 pl @ rest)
         = (Some (alloc_dataframe (unat (h_opcode dfh)) (h_fin dfh) pl), rest)"
proof (cases "len64 > 0")
  case True
  then show ?thesis
    using assms by (simp add: read_payload_def fread_append length_mask_from mask_from_invol)
next
  case False
  then have "len64 = 0" by (simp add: word_greater_zero_iff)
  then have "pl = []" using assms by simp
  then show ?thesis using \<open>len64 = 0\<close> by (simp add: read_payload_def)
qed

lemma read_mask_key:
  "h_mask dfh \<Longrightarrow> read_mask dfh (key_bytes k @ rest) = (Some (Some k), rest)"
  by (simp add: read_mask_def fread_append[OF length_key_bytes] key_of_key_bytes)

lemma ucast8_of_nat: "n \<le> 125 \<Longrightarrow> (ucast (of_nat n :: 8 word) :: 64 word) = of_nat n"
  by (simp add: word_eq_iff_unsigned[where ?'a = nat] unsigned_ucast_eq unat_of_nat take_bit_nat_eq_self)

lemma ucast16_of_nat: "n \<le> 0xffff \<Longrightarrow> (ucast (of_nat n :: 16 word) :: 64 word) = of_nat n"
  by (simp add: word_eq_iff_unsigned[where ?'a = nat] unsigned_ucast_eq unat_of_nat take_bit_nat_eq_self)

lemma unat_len64: "n < 2 ^ 63 \<Longrightarrow> unat (of_nat n :: 64 word) = n"
  by (simp add: unat_of_nat take_bit_nat_eq_self)

lemma read_length_small:
  assumes "h_len dfh = of_nat n" "n \<le> 125"
  shows "read_length dfh f = (Some (of_nat n), f)"
proof -
  have n127: "(of_nat n :: 8 word) \<noteq> 127" "(of_nat n :: 8 word) \<noteq> 126"
    using unat_len7_small[OF assms(2)] assms(2) by auto
  show ?thesis using n127 assms(1) by (simp add: read_length_def ucast8_of_nat[OF assms(2)])
qed

lemma length_htobe16: "length (htobe16 w) = 2" by (simp add: htobe16_def)
lemma length_htobe64: "length (htobe64 w) = 8" by (simp add: htobe64_def)

lemma read_length_16:
  assumes "h_len dfh = 126" "n \<le> 0xffff"
  shows "read_length dfh (htobe16 (of_nat n) @ f) = (Some (of_nat n), f)"
  using assms(1) by (simp add: read_length_def fread_append[OF length_htobe16] be16 ucast16_of_nat[OF assms(2)])

lemma read_length_64:
  assumes "h_len dfh = 127" "n < 2 ^ 63"
  shows "read_length dfh (htobe64 (of_nat n) @ f) = (Some (of_nat n), f)"
  using assms(1) high_bit_clear[OF assms(2)]
  by (simp add: read_length_def fread_append[OF length_htobe64] be64 Let_def del: push_bit_of_1)

lemma read_length_wire:
  assumes "h_len dfh = (if n \<le> 125 then of_nat n else if n \<le> 0xffff then 126 else 127)" "n < 2 ^ 63"
  shows "read_length dfh ((if n \<le> 125 then []
            else if n \<le> 0xffff then htobe16 (of_nat n)
            else htobe64 (of_nat n)) @ f) = (Some (of_nat n), f)"
  using assms read_length_small[of dfh n f] read_length_16[of dfh n f] read_length_64[of dfh n f]
  by (auto split: if_splits)

lemma read_dataframe_wire:
  assumes "opcode df < 16" and "length pl < 2 ^ 63"
  shows "read_dataframe
           (header_bytes (make_header df True
              (if length pl \<le> 125 then of_nat (length pl)
               else if length pl \<le> 0xffff then 126 else 127)) @
            (if length pl \<le> 125 then []
             else if length pl \<le> 0xffff then htobe16 (of_nat (length pl))
             else htobe64 (of_nat (length pl))) @
            key_bytes k @ mask_from k 0 pl @ rest) rm
         = (Some (alloc_dataframe (opcode df) (fin df) pl), rest)"
proof -
  let ?l7 = "(if length pl \<le> 125 then of_nat (length pl)
               else if length pl \<le> 0xffff then 126 else 127) :: 8 word"
  let ?h = "make_header df True ?l7"
  let ?dfh = "?h\<lparr>h_opcode := h_opcode ?h AND 0x0F, h_len := h_len ?h AND 0x7F\<rparr>"
  have l7: "?l7 AND 0x7F = ?l7"
    by (simp add: len7_small)
  have hl: "h_len ?dfh = ?l7" using l7 by (simp add: make_header_def)
  have hm: "h_mask ?dfh" by (simp add: make_header_def)
  have ho: "unat (h_opcode ?dfh) = opcode df" "h_fin ?dfh = fin df"
    using opcode4[OF assms(1)] by (simp_all add: make_header_def)
  note rl = read_length_wire[of ?dfh "length pl", OF hl assms(2)]
  note u = unat_len64[OF assms(2)]
  show ?thesis
    unfolding read_dataframe_def
    apply (simp only: append_assoc fread_append[OF length_header_bytes] prod.case option.case Let_def header_roundtrip)
    apply (simp only: hm rl read_mask_key[OF hm] read_payload_masked[OF u] ho prod.case option.case simp_thms if_False)
    done
qed

text \<open>What a successful write has appended, and what reading it back gives.\<close>

lemma write_dataframe_prefix_form:
  assumes "write_dataframe f df mk = (True, f', df')"
    and "df_len df < 2 ^ 64"
  shows "\<exists>b0 b1 ext.
           written f' = written f @ [b0, b1] @ ext
                          @ (case mk of None \<Rightarrow> [] | Some k \<Rightarrow> key_bytes k) @ payload df' \<and>
           length (payload df') = df_len df \<and>
           unat (of_char b1 AND 0x7F :: 8 word) =
             (if df_len df \<le> 125 then df_len df else if df_len df \<le> 65535 then 126 else 127) \<and>
           (bit (of_char b1 :: 8 word) 7 \<longleftrightarrow> mk \<noteq> None) \<and>
           length ext = (if df_len df \<le> 125 then 0 else if df_len df \<le> 65535 then 2 else 8) \<and>
           (if df_len df \<le> 125 then ext = []
            else if df_len df \<le> 65535 then unat (be16toh ext) = df_len df
            else unat (be64toh ext) = df_len df) \<and>
           length (case mk of None \<Rightarrow> [] | Some k \<Rightarrow> key_bytes k) = (if mk = None then 0 else 4)"
proof -
  let ?n = "df_len df"
  let ?l7 = "(if ?n \<le> 125 then of_nat ?n else if ?n \<le> 0xffff then 126 else 127) :: 8 word"
  let ?h = "make_header df (mk \<noteq> None) ?l7"
  let ?ext = "if ?n \<le> 125 then [] else if ?n \<le> 0xffff then htobe16 (of_nat ?n) else htobe64 (of_nat ?n)"
  have hb: "header_bytes ?h = [header_bytes ?h ! 0, header_bytes ?h ! 1]"
    by (simp add: header_bytes_def)
  have w: "written f' = written f @ [header_bytes ?h ! 0, header_bytes ?h ! 1] @ ?ext
             @ (case mk of None \<Rightarrow> [] | Some k \<Rightarrow> key_bytes k) @ payload df'"
    using write_dataframe_True(1)[OF assms(1)] hb by simp
  have pl: "length (payload df') = ?n"
    using write_dataframe_True(2)[OF assms(1)]
    by (auto simp: df_len_def length_mask_from split: option.splits)
  have rt: "header_of_bytes (header_bytes ?h ! 0) (header_bytes ?h ! 1) =
            ?h\<lparr>h_opcode := h_opcode ?h AND 0x0F, h_len := h_len ?h AND 0x7F\<rparr>"
    by (rule header_roundtrip)
  have b1: "(of_char (header_bytes ?h ! 1) :: 8 word) AND 0x7F = ?l7 AND 0x7F"
    using arg_cong[OF rt, of h_len] by (simp add: header_of_bytes_def Let_def make_header_def)
  have l7: "unat (?l7 AND 0x7F) = (if ?n \<le> 125 then ?n else if ?n \<le> 65535 then 126 else 127)"
    by (simp add: len7_small unat_len7_small)
  have mb: "bit (of_char (header_bytes ?h ! 1) :: 8 word) 7 \<longleftrightarrow> mk \<noteq> None"
    using arg_cong[OF rt, of h_mask] by (simp add: header_of_bytes_def Let_def make_header_def)
  have le: "length ?ext = (if ?n \<le> 125 then 0 else if ?n \<le> 65535 then 2 else 8)"
    by (simp add: length_htobe16 length_htobe64)
  have u16: "?n \<le> 65535 \<Longrightarrow> unat (of_nat ?n :: 16 word) = ?n"
    by (simp add: unat_of_nat take_bit_nat_eq_self)
  have u64: "unat (of_nat ?n :: 64 word) = ?n"
    using assms(2) by (simp add: unat_of_nat take_bit_nat_eq_self)
  have dec: "if ?n \<le> 125 then ?ext = []
             else if ?n \<le> 65535 then unat (be16toh ?ext) = ?n
             else unat (be64toh ?ext) = ?n"
    using u16 u64 by (simp add: be16 be64)
  have kl: "length (case mk of None \<Rightarrow> [] | Some k \<Rightarrow> key_bytes k) = (if mk = None then 0 else 4)"
    by (simp add: length_key_bytes split: option.splits)
  show ?thesis
    using w pl b1 l7 mb le dec kl by (intro exI[of _ "header_bytes ?h ! 0"] exI[of _ "header_bytes ?h ! 1"] exI[of _ ?ext]) (simp only: simp_thms)
qed

lemma read_after_write:
  assumes "write_dataframe f df (Some k) = (True, f', df')"
    and "opcode df < 16"
    and "df_len df < 2 ^ 63"
  shows "read_dataframe (drop (length (written f)) (written f') @ rest) True = (Some df, rest)"
proof -
  let ?n = "length (payload df)"
  let ?wire = "header_bytes (make_header df True
                 (if ?n \<le> 125 then of_nat ?n else if ?n \<le> 0xffff then 126 else 127)) @
               (if ?n \<le> 125 then []
                else if ?n \<le> 0xffff then htobe16 (of_nat ?n) else htobe64 (of_nat ?n)) @
               key_bytes k @ mask_from k 0 (payload df)"
  have df': "payload df' = mask_from k 0 (payload df)"
    using write_dataframe_True(2)[OF assms(1)] by simp
  have "written f' = written f @ ?wire"
    using write_dataframe_True(1)[OF assms(1)] by (simp only: df' df_len_def option.case append_assoc) simp
  then have wire: "drop (length (written f)) (written f') = ?wire"
    by simp
  have same: "alloc_dataframe (opcode df) (fin df) (payload df) = df"
    by (simp add: alloc_dataframe_def)
  have "length (payload df) < 2 ^ 63"
    using assms(3) by (simp add: df_len_def)
  from read_dataframe_wire[OF assms(2) this, of k rest True]
  have "read_dataframe (?wire @ rest) True = (Some df, rest)"
    by (simp only: same append_assoc)
  then show ?thesis
    by (simp only: wire)
qed

text \<open>A write succeeds when the stream has room for the header, the extended length, the
  key and the payload.\<close>

lemma fwrite_fits:
  "length bs \<le> room f \<Longrightarrow>
   fwrite bs f = (True, f\<lparr>written := written f @ bs, room := room f - length bs\<rparr>)"
  by (simp add: fwrite_def)

lemma write_header_fits:
  assumes "2 + (if df_len df \<le> 125 then 0 else if df_len df \<le> 0xffff then 2 else 8) \<le> room f"
  shows "write_header df m f =
           (True,
            f\<lparr>written := written f @
                   header_bytes (make_header df m
                     (if df_len df \<le> 125 then of_nat (df_len df)
                      else if df_len df \<le> 0xffff then 126 else 127)) @
                   (if df_len df \<le> 125 then []
                    else if df_len df \<le> 0xffff then htobe16 (of_nat (df_len df))
                    else htobe64 (of_nat (df_len df))),
               room := room f -
                   (2 + (if df_len df \<le> 125 then 0 else if df_len df \<le> 0xffff then 2 else 8))\<rparr>)"
  using assms
  by (auto simp: write_header_def fwrite_fits length_header_bytes length_htobe16 length_htobe64)

lemma write_dataframe_fits:
  assumes "2 + (if df_len df \<le> 125 then 0 else if df_len df \<le> 0xffff then 2 else 8) +
           (if mk = None then 0 else 4) + df_len df \<le> room f"
  shows "fst (write_dataframe f df mk)"
proof -
  let ?e = "if df_len df \<le> 125 then 0 else if df_len df \<le> 0xffff then 2 else (8::nat)"
  have h: "2 + ?e \<le> room f" using assms by (simp split: if_splits)
  note wh = write_header_fits[OF h, of "mk \<noteq> None"]
  show ?thesis
  proof (cases mk)
    case None
    then show ?thesis
      using assms wh
      by (simp add: write_dataframe_def fwrite_fits df_len_def split: if_splits)
  next
    case (Some k)
    then show ?thesis
      using assms wh
      by (simp add: write_dataframe_def fwrite_fits df_len_def length_key_bytes length_mask_from
          Let_def split: if_splits)
  qed
qed

text \<open>
  Claim C8. On a stream with room for the frame, \<^verbatim>\<open>write_dataframe\<close> succeeds and appends
  two header bytes, the extended length, the mask key and the payload. The low seven bits
  of the second byte are the payload length when it is at most 125, the marker 126 when it
  is at most 65535, and the marker 127 otherwise; the extended length is then absent, two
  bytes or eight bytes, and read big-endian it is the payload length; the mask bit is set
  and four key bytes follow exactly when a mask key is supplied.
\<close>

theorem write_dataframe_shortest_length:
  assumes "2 + (if df_len df \<le> 125 then 0 else if df_len df \<le> 0xffff then 2 else 8) +
           (if mk = None then 0 else 4) + df_len df \<le> room f"
    and "df_len df < 2 ^ 64"
  shows "\<exists>f' df' b0 b1 ext.
           write_dataframe f df mk = (True, f', df') \<and>
           written f' = written f @ [b0, b1] @ ext
                          @ (case mk of None \<Rightarrow> [] | Some k \<Rightarrow> key_bytes k) @ payload df' \<and>
           length (payload df') = df_len df \<and>
           unat (of_char b1 AND 0x7F :: 8 word) =
             (if df_len df \<le> 125 then df_len df else if df_len df \<le> 65535 then 126 else 127) \<and>
           (bit (of_char b1 :: 8 word) 7 \<longleftrightarrow> mk \<noteq> None) \<and>
           length ext = (if df_len df \<le> 125 then 0 else if df_len df \<le> 65535 then 2 else 8) \<and>
           (if df_len df \<le> 125 then ext = []
            else if df_len df \<le> 65535 then unat (be16toh ext) = df_len df
            else unat (be64toh ext) = df_len df) \<and>
           length (case mk of None \<Rightarrow> [] | Some k \<Rightarrow> key_bytes k) = (if mk = None then 0 else 4)"
proof -
  obtain f' df' where w: "write_dataframe f df mk = (True, f', df')"
    using write_dataframe_fits[OF assms(1)] by (cases "write_dataframe f df mk") auto
  from write_dataframe_prefix_form[OF w assms(2)] w show ?thesis
    by blast
qed

theorem write_dataframe_shortest_length_witness:
  "write_dataframe \<lparr>written = [], room = 65546\<rparr>
       (alloc_dataframe OC_BIN True (replicate 65536 (CHR ''x''))) None
     = (True,
        \<lparr>written = [CHR 0x82, CHR 0x7F, CHR 0x00, CHR 0x00, CHR 0x00, CHR 0x00, CHR 0x00, CHR 0x01,
                     CHR 0x00, CHR 0x00] @ replicate 65536 (CHR ''x''), room = 0\<rparr>,
        alloc_dataframe OC_BIN True (replicate 65536 (CHR ''x''))) \<and>
   (\<exists>b0 b1 ext.
      [CHR 0x82, CHR 0x7F, CHR 0x00, CHR 0x00, CHR 0x00, CHR 0x00, CHR 0x00, CHR 0x01,
       CHR 0x00, CHR 0x00] @ replicate 65536 (CHR ''x'')
        = [b0, b1] @ ext @ replicate 65536 (CHR ''x'') \<and>
      unat (of_char b1 AND 0x7F :: 8 word) = 127 \<and> \<not> bit (of_char b1 :: 8 word) 7 \<and>
      length ext = 8 \<and> unat (be64toh ext) = 65536)"
proof -
  let ?d = "alloc_dataframe OC_BIN True (replicate 65536 (CHR ''x''))"
  let ?f = "\<lparr>written = [], room = 65546\<rparr>"
  have h1: "write_dataframe ?f ?d None
     = (True,
        \<lparr>written = [CHR 0x82, CHR 0x7F, CHR 0x00, CHR 0x00, CHR 0x00, CHR 0x00, CHR 0x00, CHR 0x01,
                     CHR 0x00, CHR 0x00] @ replicate 65536 (CHR ''x''), room = 0\<rparr>,
        ?d)"
    by (simp add: write_dataframe_def write_header_def df_len_def alloc_dataframe_def fwrite_def
        header_bytes_def make_header_def htobe64_def bit_at_def OC_BIN_def char_of_nat_bits)
  have r: "2 + (if df_len ?d \<le> 125 then 0 else if df_len ?d \<le> 0xffff then 2 else 8) +
           (if (None :: mask_key option) = None then 0 else 4) + df_len ?d \<le> room ?f"
    by (simp add: df_len_def alloc_dataframe_def)
  have h2: "df_len ?d < 2 ^ 64"
    by (simp add: df_len_def alloc_dataframe_def)
  from write_dataframe_shortest_length[OF r h2] h1 show ?thesis
    by (simp add: df_len_def alloc_dataframe_def)
qed

text \<open>
  Claim C4. A frame with an opcode of four bits and fewer than \<open>2 ^ 63\<close> payload bytes is
  written with any mask key, on a stream with room for it, and the bytes written are read
  back as the same frame (opcode, fin bit and payload) by \<^verbatim>\<open>read_dataframe\<close> with masking
  required, whatever follows them in the stream.
\<close>

theorem frame_roundtrip:
  assumes "2 + (if df_len df \<le> 125 then 0 else if df_len df \<le> 0xffff then 2 else 8) + 4 +
           df_len df \<le> room f"
    and "opcode df < 16"
    and "df_len df < 2 ^ 63"
  shows "\<exists>f' df'.
           write_dataframe f df (Some k) = (True, f', df') \<and>
           read_dataframe (drop (length (written f)) (written f') @ rest) True = (Some df, rest)"
proof -
  have "2 + (if df_len df \<le> 125 then 0 else if df_len df \<le> 0xffff then 2 else 8) +
        (if Some k = None then 0 else 4) + df_len df \<le> room f"
    using assms(1) by simp
  then obtain f' df' where w: "write_dataframe f df (Some k) = (True, f', df')"
    using write_dataframe_fits[of df "Some k" f] by (cases "write_dataframe f df (Some k)") auto
  from read_after_write[OF w assms(2,3)] w show ?thesis
    by blast
qed

theorem frame_roundtrip_witness:
  "write_dataframe \<lparr>written = [], room = 11\<rparr> (alloc_dataframe OC_TEXT True ''Hello'')
      (Some (CHR 0x37, CHR 0xfa, CHR 0x21, CHR 0x3d))
     = (True,
        \<lparr>written = [CHR 0x81, CHR 0x85, CHR 0x37, CHR 0xfa, CHR 0x21, CHR 0x3d,
                     CHR 0x7f, CHR 0x9f, CHR 0x4d, CHR 0x51, CHR 0x58], room = 0\<rparr>,
        alloc_dataframe OC_TEXT True [CHR 0x7f, CHR 0x9f, CHR 0x4d, CHR 0x51, CHR 0x58]) \<and>
   read_dataframe [CHR 0x81, CHR 0x85, CHR 0x37, CHR 0xfa, CHR 0x21, CHR 0x3d,
                   CHR 0x7f, CHR 0x9f, CHR 0x4d, CHR 0x51, CHR 0x58] True
     = (Some (alloc_dataframe OC_TEXT True ''Hello''), [])"
proof -
  let ?d = "alloc_dataframe OC_TEXT True ''Hello''"
  let ?f = "\<lparr>written = [], room = 11\<rparr>"
  have w: "write_dataframe ?f ?d (Some (CHR 0x37, CHR 0xfa, CHR 0x21, CHR 0x3d))
     = (True,
        \<lparr>written = [CHR 0x81, CHR 0x85, CHR 0x37, CHR 0xfa, CHR 0x21, CHR 0x3d,
                     CHR 0x7f, CHR 0x9f, CHR 0x4d, CHR 0x51, CHR 0x58], room = 0\<rparr>,
        alloc_dataframe OC_TEXT True [CHR 0x7f, CHR 0x9f, CHR 0x4d, CHR 0x51, CHR 0x58])"
    by (simp add: write_dataframe_def write_header_def df_len_def alloc_dataframe_def fwrite_def
        header_bytes_def make_header_def key_bytes_def bit_at_def OC_TEXT_def xor_char_def
        key_at_def char_of_nat_bits)
  have r: "2 + (if df_len ?d \<le> 125 then 0 else if df_len ?d \<le> 0xffff then 2 else 8) + 4 +
           df_len ?d \<le> room ?f"
    by (simp add: df_len_def alloc_dataframe_def)
  have o: "opcode ?d < 16"
    by (simp add: alloc_dataframe_def OC_TEXT_def)
  have l: "df_len ?d < 2 ^ 63"
    by (simp add: alloc_dataframe_def df_len_def)
  from frame_roundtrip[OF r o l, of "(CHR 0x37, CHR 0xfa, CHR 0x21, CHR 0x3d)" "[]"] w show ?thesis
    by simp
qed

section \<open>Properties of the websocket session\<close>

lemma read_payload_cong:
  "h_opcode dfh = h_opcode dfh' \<Longrightarrow> h_fin dfh = h_fin dfh' \<Longrightarrow>
   read_payload dfh l mk f = read_payload dfh' l mk f"
  by (simp add: read_payload_def split: prod.splits option.splits)

lemma read_length_cong:
  "h_len dfh = h_len dfh' \<Longrightarrow> read_length dfh f = read_length dfh' f"
  by (simp add: read_length_def)

lemma read_mask_cong:
  "h_mask dfh = h_mask dfh' \<Longrightarrow> read_mask dfh f = read_mask dfh' f"
  by (simp add: read_mask_def)

text \<open>
  Claim C3, as the code has it. \<^verbatim>\<open>read_dataframe\<close> never looks at the reserved bits:
  the masked frame with header bytes \<open>0xC1 0x80\<close> has \<open>rsv1\<close> set and is returned as an
  empty final TEXT frame.
\<close>

theorem reserved_bits_counterexample:
  "h_rsv1 (header_of_bytes (CHR 0xC1) (CHR 0x80)) \<and>
   read_dataframe [CHR 0xC1, CHR 0x80, CHR 0x00, CHR 0x00, CHR 0x00, CHR 0x00] True
     = (Some (alloc_dataframe OC_TEXT True []), [])"
  by (simp add: read_dataframe_def header_of_bytes_def fread_def read_length_def read_mask_def
      read_payload_def key_of_bytes_def alloc_dataframe_def OC_TEXT_def Let_def)

text \<open>
  Claim C3, amended. Two frames whose first bytes agree in the fin bit and the opcode, and
  so differ in the reserved bits only, are read alike: the reserved bits have no effect on
  the result of \<^verbatim>\<open>read_dataframe\<close>, which has no error for them.
\<close>

theorem read_dataframe_ignores_reserved_bits:
  assumes "h_fin (header_of_bytes c0 c1) = h_fin (header_of_bytes d0 c1)"
    and "h_opcode (header_of_bytes c0 c1) = h_opcode (header_of_bytes d0 c1)"
  shows "read_dataframe (c0 # c1 # rest) require_masked
           = read_dataframe (d0 # c1 # rest) require_masked"
proof -
  let ?c = "header_of_bytes c0 c1" and ?d = "header_of_bytes d0 c1"
  have m: "h_mask ?c = h_mask ?d" and l: "h_len ?c = h_len ?d"
    by (simp_all add: header_of_bytes_def Let_def)
  have "read_dataframe (c0 # c1 # rest) require_masked =
        (if \<not> h_mask ?c \<and> require_masked then (None, rest)
         else (case read_length ?c rest of
                 (None, f2) \<Rightarrow> (None, f2)
               | (Some len64, f2) \<Rightarrow>
                   (case read_mask ?c f2 of
                      (None, f3) \<Rightarrow> (None, f3)
                    | (Some mk, f3) \<Rightarrow> read_payload ?c len64 mk f3)))"
    by (simp add: read_dataframe_def fread_def Let_def)
  also have "\<dots> =
        (if \<not> h_mask ?d \<and> require_masked then (None, rest)
         else (case read_length ?d rest of
                 (None, f2) \<Rightarrow> (None, f2)
               | (Some len64, f2) \<Rightarrow>
                   (case read_mask ?d f2 of
                      (None, f3) \<Rightarrow> (None, f3)
                    | (Some mk, f3) \<Rightarrow> read_payload ?d len64 mk f3)))"
    by (simp only: m read_length_cong[OF l] read_mask_cong[OF m] read_payload_cong[OF assms(2) assms(1)])
  also have "\<dots> = read_dataframe (d0 # c1 # rest) require_masked"
    by (simp add: read_dataframe_def fread_def Let_def)
  finally show ?thesis .
qed

theorem read_dataframe_ignores_reserved_bits_witness:
  "h_rsv1 (header_of_bytes (CHR 0xC1) (CHR 0x80)) \<and>
   \<not> h_rsv1 (header_of_bytes (CHR 0x81) (CHR 0x80)) \<and>
   read_dataframe [CHR 0xC1, CHR 0x80, CHR 0x01, CHR 0x02, CHR 0x03, CHR 0x04] True
     = read_dataframe [CHR 0x81, CHR 0x80, CHR 0x01, CHR 0x02, CHR 0x03, CHR 0x04] True"
proof -
  have f: "h_fin (header_of_bytes (CHR 0xC1) (CHR 0x80)) = h_fin (header_of_bytes (CHR 0x81) (CHR 0x80))"
    by (simp add: header_of_bytes_def)
  have oc: "h_opcode (header_of_bytes (CHR 0xC1) (CHR 0x80)) = h_opcode (header_of_bytes (CHR 0x81) (CHR 0x80))"
    by (simp add: header_of_bytes_def)
  have r: "h_rsv1 (header_of_bytes (CHR 0xC1) (CHR 0x80))" "\<not> h_rsv1 (header_of_bytes (CHR 0x81) (CHR 0x80))"
    by (simp_all add: header_of_bytes_def)
  from read_dataframe_ignores_reserved_bits[OF f oc, of "[CHR 0x01, CHR 0x02, CHR 0x03, CHR 0x04]" True] r
  show ?thesis by simp
qed

text \<open>
  Claim C9, as the code has it. A CLOSE frame with a payload of one byte is no error:
  \<^verbatim>\<open>ws_wait\<close> returns \<^verbatim>\<open>WS_CLOSE\<close> and the status code is set to 0.
\<close>

theorem close_one_byte_counterexample:
  "ws_wait \<lparr>ws_f_in = Some [CHR 0x88, CHR 0x81, CHR 0x00, CHR 0x00, CHR 0x00, CHR 0x00, CHR 0x03],
            ws_f_out = Some \<lparr>written = [], room = 16\<rparr>, ws_is_masked_client = True,
            ws_df = None, ws_buff = [], ws_buff_len = 0, ws_status_code = 7,
            ws_ping_recv_count = 0, ws_pong_recv_count = 0\<rparr>
   = (WS_CLOSE,
      \<lparr>ws_f_in = Some [], ws_f_out = Some \<lparr>written = [], room = 16\<rparr>,
       ws_is_masked_client = True,
       ws_df = Some \<lparr>opcode = 8, fin = True, payload = [CHR 0x03]\<rparr>,
       ws_buff = [], ws_buff_len = 0, ws_status_code = 0,
       ws_ping_recv_count = 0, ws_pong_recv_count = 0\<rparr>)"
  by (simp add: ws_wait_def ws_read_def ws_read_loop.simps ws_read_frame_def read_dataframe_def
      header_of_bytes_def fread_def read_length_def read_mask_def read_payload_def
      key_of_bytes_def alloc_dataframe_def df_len_def xor_char_def key_at_def Let_def
      OC_CONT_def OC_TEXT_def OC_BIN_def OC_CLOSE_def OC_PING_def OC_PONG_def char_of_nat_bits)

text \<open>
  Claim C9, amended. For every CLOSE frame read with a payload of exactly one byte, the
  pass of the message loop returns \<^verbatim>\<open>OC_CLOSE\<close> with the status code 0 (the byte is
  ignored, the guard being \<^verbatim>\<open>df->len >= 2\<close>), and \<^verbatim>\<open>ws_wait\<close>, when this is the first
  frame it reads, returns \<^verbatim>\<open>WS_CLOSE\<close>: a normal close.
\<close>

theorem close_one_byte_payload:
  assumes "ws_f_in ws = Some f"
    and "read_dataframe f (ws_is_masked_client ws) = (Some d, f')"
    and "opcode d = OC_CLOSE"
    and "length (payload d) = 1"
  shows "ws_read_frame opcode_prev ws =
           Return (int OC_CLOSE,
                   ws\<lparr>ws_f_in := Some f', ws_df := Some d, ws_buff_len := 0, ws_status_code := 0\<rparr>) \<and>
         ws_wait ws =
           (WS_CLOSE,
            ws\<lparr>ws_f_in := Some f', ws_df := Some d, ws_buff_len := 0, ws_status_code := 0\<rparr>)"
proof -
  have step: "ws_read_frame p ws =
           Return (int OC_CLOSE,
                   ws\<lparr>ws_f_in := Some f', ws_df := Some d, ws_buff_len := 0, ws_status_code := 0\<rparr>)" for p
    using assms
    by (simp add: ws_read_frame_def Let_def df_len_def OC_CONT_def OC_PING_def OC_PONG_def OC_CLOSE_def)
  then show ?thesis
    by (simp add: ws_wait_def ws_read_def ws_read_loop.simps[of "- 1" ws])
qed

theorem close_one_byte_payload_witness:
  "ws_wait \<lparr>ws_f_in = Some [CHR 0x88, CHR 0x81, CHR 0x00, CHR 0x00, CHR 0x00, CHR 0x00, CHR 0x03, CHR 0x81],
            ws_f_out = Some \<lparr>written = [], room = 16\<rparr>, ws_is_masked_client = True,
            ws_df = None, ws_buff = ''abc'', ws_buff_len = 3, ws_status_code = 7,
            ws_ping_recv_count = 0, ws_pong_recv_count = 0\<rparr>
   = (WS_CLOSE,
      \<lparr>ws_f_in = Some [CHR 0x81], ws_f_out = Some \<lparr>written = [], room = 16\<rparr>,
       ws_is_masked_client = True,
       ws_df = Some \<lparr>opcode = 8, fin = True, payload = [CHR 0x03]\<rparr>,
       ws_buff = ''abc'', ws_buff_len = 0, ws_status_code = 0,
       ws_ping_recv_count = 0, ws_pong_recv_count = 0\<rparr>)"
proof -
  let ?ws = "\<lparr>ws_f_in = Some [CHR 0x88, CHR 0x81, CHR 0x00, CHR 0x00, CHR 0x00, CHR 0x00, CHR 0x03, CHR 0x81],
            ws_f_out = Some \<lparr>written = [], room = 16\<rparr>, ws_is_masked_client = True,
            ws_df = None, ws_buff = ''abc'', ws_buff_len = 3, ws_status_code = 7,
            ws_ping_recv_count = 0, ws_pong_recv_count = 0\<rparr>"
  let ?d = "\<lparr>opcode = 8, fin = True, payload = [CHR 0x03]\<rparr>"
  have a: "ws_f_in ?ws = Some [CHR 0x88, CHR 0x81, CHR 0x00, CHR 0x00, CHR 0x00, CHR 0x00, CHR 0x03, CHR 0x81]"
    by simp
  have b: "read_dataframe [CHR 0x88, CHR 0x81, CHR 0x00, CHR 0x00, CHR 0x00, CHR 0x00, CHR 0x03, CHR 0x81]
             (ws_is_masked_client ?ws) = (Some ?d, [CHR 0x81])"
    by (simp add: read_dataframe_def header_of_bytes_def fread_def read_length_def read_mask_def
        read_payload_def key_of_bytes_def alloc_dataframe_def xor_char_def key_at_def Let_def
        char_of_nat_bits)
  have c: "opcode ?d = OC_CLOSE" by (simp add: OC_CLOSE_def)
  have e: "length (payload ?d) = 1" by simp
  from close_one_byte_payload[OF a b c e, of 0] show ?thesis by simp
qed

text \<open>
  Claim C2 on the code. A client sends the message \<open>ab\<close> as a TEXT frame \<open>a\<close> without fin
  and a final CONT frame \<open>b\<close>, with an empty PING in between. The PING is answered with a
  PONG and counted, but being no CONT frame it sets \<^verbatim>\<open>buff_len\<close> to 0, and being final it
  sets \<^verbatim>\<open>opcode_prev\<close> to \<open>-1\<close>; the CONT frame then reaches the \<^verbatim>\<open>default\<close> case and
  \<^verbatim>\<open>ws_wait\<close> returns \<^verbatim>\<open>WS_ERROR\<close>. Without the PING the same two frames give the message
  \<open>ab\<close>.
\<close>

theorem ping_between_fragments_breaks_message:
  "ws_wait \<lparr>ws_f_in = Some ([CHR 0x01, CHR 0x81, CHR 0x00, CHR 0x00, CHR 0x00, CHR 0x00, CHR ''a''] @
                            [CHR 0x89, CHR 0x80, CHR 0x00, CHR 0x00, CHR 0x00, CHR 0x00] @
                            [CHR 0x80, CHR 0x81, CHR 0x00, CHR 0x00, CHR 0x00, CHR 0x00, CHR ''b'']),
            ws_f_out = Some \<lparr>written = [], room = 16\<rparr>, ws_is_masked_client = True,
            ws_df = None, ws_buff = [], ws_buff_len = 0, ws_status_code = 0,
            ws_ping_recv_count = 0, ws_pong_recv_count = 0\<rparr>
   = (WS_ERROR,
      \<lparr>ws_f_in = Some [], ws_f_out = Some \<lparr>written = [CHR 0x8A, CHR 0x00], room = 14\<rparr>,
       ws_is_masked_client = True,
       ws_df = Some \<lparr>opcode = 0, fin = True, payload = ''b''\<rparr>,
       ws_buff = ''a'', ws_buff_len = 0, ws_status_code = 0,
       ws_ping_recv_count = 1, ws_pong_recv_count = 0\<rparr>) \<and>
   ws_wait \<lparr>ws_f_in = Some ([CHR 0x01, CHR 0x81, CHR 0x00, CHR 0x00, CHR 0x00, CHR 0x00, CHR ''a''] @
                            [CHR 0x80, CHR 0x81, CHR 0x00, CHR 0x00, CHR 0x00, CHR 0x00, CHR ''b'']),
            ws_f_out = Some \<lparr>written = [], room = 16\<rparr>, ws_is_masked_client = True,
            ws_df = None, ws_buff = [], ws_buff_len = 0, ws_status_code = 0,
            ws_ping_recv_count = 0, ws_pong_recv_count = 0\<rparr>
   = (WS_MSG_TXT,
      \<lparr>ws_f_in = Some [], ws_f_out = Some \<lparr>written = [], room = 16\<rparr>,
       ws_is_masked_client = True,
       ws_df = Some \<lparr>opcode = 0, fin = True, payload = ''b''\<rparr>,
       ws_buff = ''ab'', ws_buff_len = 2, ws_status_code = 0,
       ws_ping_recv_count = 0, ws_pong_recv_count = 0\<rparr>)"
  by (simp add: ws_wait_def ws_read_def ws_read_loop.simps ws_read_frame_def read_dataframe_def
      header_of_bytes_def fread_def read_length_def read_mask_def read_payload_def
      key_of_bytes_def alloc_dataframe_def df_len_def xor_char_def key_at_def Let_def
      write_dataframe_def write_header_def make_header_def header_bytes_def bit_at_def fwrite_def
      mem_append_def
      OC_CONT_def OC_TEXT_def OC_BIN_def OC_CLOSE_def OC_PING_def OC_PONG_def char_of_nat_bits)

section \<open>Properties of the hash table and the header parser\<close>

lemma ht_index_less: "ht_wf ht \<Longrightarrow> ht_index ht key < length (chains ht)"
  by (simp add: ht_wf_def ht_index_def)

lemma ht_wf_create: "ht_wf (ht_create n h)"
  by (simp add: ht_wf_def ht_create_def Let_def)

lemma ht_wf_put: "ht_wf ht \<Longrightarrow> ht_wf (ht_put ht key val)"
  by (simp add: ht_wf_def ht_put_def Let_def split: option.splits)

lemma ht_index_put: "ht_index (ht_put ht key val) k = ht_index ht k"
  by (simp add: ht_index_def ht_put_def Let_def split: option.splits)

lemma chain_update_find:
  "chain_update k v c = Some c' \<Longrightarrow> chain_find k' c' = (if k' = k then Some v else chain_find k' c)"
  by (induction c arbitrary: c') (auto split: if_splits option.splits)

lemma chain_update_None: "chain_update k v c = None \<Longrightarrow> chain_find k c = None"
  by (induction c) (auto split: if_splits option.splits)

lemma chain_update_keys: "chain_update k v c = Some c' \<Longrightarrow> map fst c' = map fst c"
  by (induction c arbitrary: c') (auto split: if_splits option.splits)

lemma chain_find_mem: "chain_find k c = Some v \<Longrightarrow> (k, v) \<in> set c"
  by (induction c) (auto split: if_splits)

lemma ht_get_create: "ht_get (ht_create n h) key = None"
proof -
  have "unat (hash_fn key) mod n1 < n1" if "0 < n1" for n1 :: nat and hash_fn :: "string \<Rightarrow> 32 word"
    using that by simp
  then show ?thesis
    by (simp add: ht_get_def ht_create_def ht_index_def Let_def)
qed

lemma ht_get_put_same:
  assumes "ht_wf ht"
  shows "ht_get (ht_put ht key val) key = val"
proof -
  note i = ht_index_less[OF assms, of key]
  show ?thesis
  proof (cases "chain_update key val (chains ht ! ht_index ht key)")
    case None
    then show ?thesis
      using i by (simp add: ht_get_def ht_index_put) (simp add: ht_put_def Let_def)
  next
    case (Some c')
    then show ?thesis
      using i chain_update_find[OF Some, of key]
      by (simp add: ht_get_def ht_index_put) (simp add: ht_put_def Let_def)
  qed
qed

lemma ht_get_put_other:
  assumes "ht_wf ht" and "k \<noteq> key"
  shows "ht_get (ht_put ht key val) k = ht_get ht k"
proof (cases "ht_index ht k = ht_index ht key")
  case False
  then show ?thesis
    by (simp add: ht_get_def ht_index_put) (simp add: ht_put_def Let_def split: option.splits)
next
  case True
  note i = ht_index_less[OF assms(1), of key]
  show ?thesis
  proof (cases "chain_update key val (chains ht ! ht_index ht key)")
    case None
    then show ?thesis
      using i True assms(2) by (simp add: ht_get_def ht_index_put) (simp add: ht_put_def Let_def)
  next
    case (Some c')
    then show ?thesis
      using i True assms(2) chain_update_find[OF Some, of k]
      by (simp add: ht_get_def ht_index_put) (simp add: ht_put_def Let_def)
  qed
qed

lemma keys_lower_create: "keys_lower (ht_create n h)"
  by (simp add: keys_lower_def ht_create_def Let_def)

lemma keys_lower_put:
  assumes "ht_wf ht" and "keys_lower ht" and "sz_to_lower key = key"
  shows "keys_lower (ht_put ht key val)"
proof -
  let ?i = "ht_index ht key"
  have old: "\<forall>kv \<in> set (chains ht ! ?i). sz_to_lower (fst kv) = fst kv"
    using assms(2) ht_index_less[OF assms(1), of key] by (auto simp: keys_lower_def)
  have new: "\<forall>kv \<in> set c'. sz_to_lower (fst kv) = fst kv"
    if "chain_update key val (chains ht ! ?i) = Some c'" for c'
  proof -
    have "set (map fst c') = set (map fst (chains ht ! ?i))"
      using chain_update_keys[OF that] by simp
    then have "fst ` set c' = fst ` set (chains ht ! ?i)"
      by simp
    then show ?thesis using old by force
  qed
  have "\<forall>kv \<in> set c. sz_to_lower (fst kv) = fst kv" if "c \<in> set (chains (ht_put ht key val))" for c
  proof (cases "chain_update key val (chains ht ! ?i)")
    case None
    then have "c \<in> insert ((key, val) # (chains ht ! ?i)) (set (chains ht))"
      using that set_update_subset_insert[of "chains ht" ?i]
      by (auto simp: ht_put_def Let_def)
    then show ?thesis using old assms(2,3) by (auto simp: keys_lower_def)
  next
    case (Some c')
    then have "c \<in> insert c' (set (chains ht))"
      using that set_update_subset_insert[of "chains ht" ?i]
      by (auto simp: ht_put_def Let_def)
    then show ?thesis using new[OF Some] assms(2) by (auto simp: keys_lower_def)
  qed
  then show ?thesis by (simp add: keys_lower_def)
qed

lemma ht_get_lower:
  assumes "ht_wf ht" and "keys_lower ht" and "ht_get ht key = Some v"
  shows "sz_to_lower key = key"
proof -
  let ?c = "chains ht ! ht_index ht key"
  have "chain_find key ?c = Some (Some v)"
    using assms(3) by (auto simp: ht_get_def split: option.splits)
  then have "(key, Some v) \<in> set ?c" by (rule chain_find_mem)
  moreover have "?c \<in> set (chains ht)"
    using ht_index_less[OF assms(1), of key] by simp
  ultimately have "sz_to_lower (fst (key, Some v)) = fst (key, Some v)"
    using assms(2) unfolding keys_lower_def by blast
  then show ?thesis by simp
qed

lemma tolower_idem: "tolower (tolower c) = tolower c"
proof (cases "65 \<le> (of_char c :: nat) \<and> (of_char c :: nat) \<le> 90")
  case True
  then have "(of_char (char_of ((of_char c :: nat) + 32)) :: nat) = of_char c + 32"
    by simp
  then show ?thesis using True by (simp add: tolower_def Let_def)
next
  case False
  then show ?thesis by (auto simp: tolower_def Let_def)
qed

lemma sz_to_lower_idem: "sz_to_lower (sz_to_lower s) = sz_to_lower s"
  by (simp add: sz_to_lower_def tolower_idem)

lemma parse_header_line_inv:
  assumes "ht_wf ht" and "keys_lower ht"
  shows "ht_wf (parse_header_line ht line) \<and> keys_lower (parse_header_line ht line)"
  using assms
  by (auto simp: parse_header_line_def Let_def ht_wf_put keys_lower_put sz_to_lower_idem
      split: prod.splits option.splits)

lemma parse_headers_loop_inv:
  "parse_headers_loop ht fd = (Some headers, fd') \<Longrightarrow> ht_wf ht \<Longrightarrow> keys_lower ht \<Longrightarrow>
   ht_wf headers \<and> keys_lower headers"
proof (induction ht fd rule: parse_headers_loop.induct)
  case (1 ht fd)
  obtain r fd1 where rd: "io_read_line_crlf fd MAX_HTTP_HEADER = (r, fd1)"
    by (cases "io_read_line_crlf fd MAX_HTTP_HEADER")
  show ?case
  proof (cases r)
    case (Inl e)
    then show ?thesis using "1.prems"(1) rd by (simp add: parse_headers_loop.simps[of ht fd])
  next
    case (Inr h_buff)
    show ?thesis
    proof (cases "length h_buff > 0")
      case True
      then have "parse_headers_loop (parse_header_line ht h_buff) fd1 = (Some headers, fd')"
        using "1.prems"(1) rd Inr by (simp add: parse_headers_loop.simps[of ht fd])
      moreover note parse_header_line_inv[OF "1.prems"(2,3), of h_buff]
      ultimately show ?thesis
        using "1.IH"[OF rd[unfolded Inr, symmetric] refl True] by blast
    next
      case False
      then show ?thesis
        using "1.prems" rd Inr by (simp add: parse_headers_loop.simps[of ht fd])
    qed
  qed
qed

lemma parse_content_length_5:
  "parse_headers (''Content-Length: 5'' @ CRLF @ CRLF)
     = (Some (ht_put (ht_create 0 None) ''content-length'' (Some ''5'')), [])"
  by (simp add: parse_headers_def parse_headers_loop.simps io_read_line_crlf_def
      MAX_HTTP_HEADER_def CRLF_def CR_def LF_def parse_header_line_def c_str_def strtok_def
      sz_to_lower_def tolower_def sz_trim_def SP_HT_def char_of_nat_bits)

text \<open>
  Claim C5, as the code has it. \<^verbatim>\<open>ht_get\<close> compares keys with \<^verbatim>\<open>strcmp\<close>; it is
  \<^verbatim>\<open>parse_headers\<close> that lower-cases the names it stores. The header \<open>Content-Length: 5\<close>
  is found under \<open>content-length\<close> and not under \<open>CONTENT-LENGTH\<close>.
\<close>

theorem header_lookup_case_counterexample:
  "parse_headers (''Content-Length: 5'' @ CRLF @ CRLF)
     = (Some (ht_put (ht_create 0 None) ''content-length'' (Some ''5'')), []) \<and>
   ht_get (ht_put (ht_create 0 None) ''content-length'' (Some ''5'')) ''content-length'' = Some ''5'' \<and>
   ht_get (ht_put (ht_create 0 None) ''content-length'' (Some ''5'')) ''CONTENT-LENGTH'' = None"
proof -
  have "parse_headers (''Content-Length: 5'' @ CRLF @ CRLF)
     = (Some (ht_put (ht_create 0 None) ''content-length'' (Some ''5'')), [])"
    by (rule parse_content_length_5)
  moreover have "ht_get (ht_put (ht_create 0 None) ''content-length'' (Some ''5'')) ''content-length'' = Some ''5''"
    by (rule ht_get_put_same[OF ht_wf_create])
  moreover have "ht_get (ht_put (ht_create 0 None) ''content-length'' (Some ''5'')) ''CONTENT-LENGTH'' = (None :: string option)"
    by (simp add: ht_get_put_other[OF ht_wf_create] ht_get_create)
  ultimately show ?thesis by simp
qed

text \<open>
  Claim C5, amended. In a mapping that \<^verbatim>\<open>parse_headers\<close> returns every name that a lookup
  finds is in lower case: a header is found under the lower-cased form of its name and
  under no other spelling, so a caller looks names up in lower case, as the constants
  \<^verbatim>\<open>H_CONTENT_LENGTH\<close>, \<^verbatim>\<open>H_EXPECT\<close>, \<^verbatim>\<open>H_UPGRADE\<close> do.
\<close>

theorem parsed_header_lookup_lower_case:
  assumes "parse_headers fd = (Some headers, fd')"
    and "ht_get headers H = Some v"
  shows "sz_to_lower H = H \<and> ht_get headers (sz_to_lower H) = Some v"
proof -
  have "ht_wf headers \<and> keys_lower headers"
    using assms(1) parse_headers_loop_inv[OF _ ht_wf_create keys_lower_create]
    by (simp add: parse_headers_def)
  then have "ht_wf headers" and "keys_lower headers"
    by simp_all
  from ht_get_lower[OF this assms(2)] have "sz_to_lower H = H" .
  then show ?thesis using assms(2) by simp
qed

theorem parsed_header_lookup_lower_case_witness:
  "parse_headers (''Content-Length: 5'' @ CRLF @ CRLF)
     = (Some (ht_put (ht_create 0 None) ''content-length'' (Some ''5'')), []) \<and>
   sz_to_lower ''content-length'' = ''content-length'' \<and>
   ht_get (ht_put (ht_create 0 None) ''content-length'' (Some ''5''))
     (sz_to_lower ''content-length'') = Some ''5''"
proof -
  have p: "parse_headers (''Content-Length: 5'' @ CRLF @ CRLF)
     = (Some (ht_put (ht_create 0 None) ''content-length'' (Some ''5'')), [])"
    by (rule parse_content_length_5)
  have g: "ht_get (ht_put (ht_create 0 None) ''content-length'' (Some ''5'')) ''content-length'' = Some ''5''"
    by (rule ht_get_put_same[OF ht_wf_create])
  from parsed_header_lookup_lower_case[OF p g] p show ?thesis by blast
qed

section \<open>Properties of the request handler\<close>

lemma sz_equal_ignore_case_loop_iff:
  "sz_equal_ignore_case_loop a b \<longleftrightarrow> sz_to_lower a = sz_to_lower b"
  by (induction a b rule: sz_equal_ignore_case_loop.induct) (auto simp: sz_to_lower_def)

lemma http_method_unknown_iff:
  "http_method m = M_UNKNOWN \<longleftrightarrow>
     sz_to_lower m \<notin> set [''get'', ''post'', ''put'', ''delete'']"
proof -
  have lit: "sz_to_lower ''GET'' = ''get''" "sz_to_lower ''POST'' = ''post''"
    "sz_to_lower ''PUT'' = ''put''" "sz_to_lower ''DELETE'' = ''delete''"
    by (simp_all add: sz_to_lower_def tolower_def char_of_nat_bits)
  show ?thesis
    by (auto simp: http_method_def sz_equal_ignore_case_loop_iff lit)
qed

text \<open>
  Claim C6, as the code has it. For the request line \<open>BOGUS / HTTP/1.1\<close>
  \<^verbatim>\<open>http_client_connect\<close> returns 405 as soon as it has parsed the line: the headers are
  not read and nothing is written to the client.
\<close>

theorem unknown_method_counterexample:
  "http_client_connect
     \<lparr>fs_canon = (\<lambda>p. Inl ENOENT), fs_stat = (\<lambda>p. None), fs_open = (\<lambda>p. None)\<rparr> 4096
     \<lparr>static_files_dir = ''/srv/web'', static_files_dir_len = 8\<rparr>
     (''BOGUS / HTTP/1.1'' @ CRLF @ CRLF) \<lparr>written = [], room = 1000\<rparr>
   = (405, CRLF, \<lparr>written = [], room = 1000\<rparr>)"
  by (simp add: http_client_connect_def io_read_line_crlf_def MAX_HTTP_REQ_def CRLF_def CR_def
      LF_def c_str_def strtok_def sscanf_http_version_def scan_d_def skip_sign_def isspace_def
      isdigit_def http_method_def tolower_def HTTP_METHOD_NOT_ALLOWED_def char_of_nat_bits)

text \<open>
  Claim C6, amended. For every request whose request line splits at spaces into a method,
  a URI and a version of the form \<open>HTTP/<int>.<int>\<close>, and whose method is none of GET,
  POST, PUT and DELETE in any case of letters, \<^verbatim>\<open>http_client_connect\<close> returns the status
  405 to its caller, without reading the headers and without writing to the client.
\<close>

theorem unknown_method_returns_405:
  assumes "io_read_line_crlf fd_client_in (MAX_HTTP_REQ + 1) = (Inr req_line, fd1)"
    and "strtok (c_str req_line) '' '' = (Some sz_method, r1)"
    and "strtok r1 '' '' = (Some uri, r2)"
    and "strtok r2 '' '' = (Some version, r3)"
    and "sscanf_http_version version = 2"
    and "sz_to_lower sz_method \<notin> set [''get'', ''post'', ''put'', ''delete'']"
  shows "http_client_connect fs PATH_MAX cfg fd_client_in fd_client_out
           = (HTTP_METHOD_NOT_ALLOWED, fd1, fd_client_out)"
proof -
  have "http_method sz_method = M_UNKNOWN"
    using assms(6) http_method_unknown_iff[of sz_method] by blast
  then show ?thesis
    using assms(1-5) by (simp add: http_client_connect_def)
qed

theorem unknown_method_returns_405_witness:
  "http_client_connect
     \<lparr>fs_canon = (\<lambda>p. Inl ENOENT), fs_stat = (\<lambda>p. None), fs_open = (\<lambda>p. None)\<rparr> 4096
     \<lparr>static_files_dir = ''/srv/web'', static_files_dir_len = 8\<rparr>
     (''Trace /x HTTP/1.0'' @ CRLF @ ''Host: a'' @ CRLF @ CRLF) \<lparr>written = [], room = 10\<rparr>
   = (HTTP_METHOD_NOT_ALLOWED, ''Host: a'' @ CRLF @ CRLF, \<lparr>written = [], room = 10\<rparr>)"
proof -
  have a: "io_read_line_crlf (''Trace /x HTTP/1.0'' @ CRLF @ ''Host: a'' @ CRLF @ CRLF) (MAX_HTTP_REQ + 1)
             = (Inr ''Trace /x HTTP/1.0'', ''Host: a'' @ CRLF @ CRLF)"
    by (simp add: io_read_line_crlf_def MAX_HTTP_REQ_def CRLF_def CR_def LF_def)
  have b: "strtok (c_str ''Trace /x HTTP/1.0'') '' '' = (Some ''Trace'', ''/x HTTP/1.0'')"
    by (simp add: c_str_def strtok_def)
  have c: "strtok ''/x HTTP/1.0'' '' '' = (Some ''/x'', ''HTTP/1.0'')"
    by (simp add: strtok_def)
  have d: "strtok ''HTTP/1.0'' '' '' = (Some ''HTTP/1.0'', [])"
    by (simp add: strtok_def)
  have e: "sscanf_http_version ''HTTP/1.0'' = 2"
    by (simp add: sscanf_http_version_def scan_d_def skip_sign_def isspace_def isdigit_def)
  have f: "sz_to_lower ''Trace'' \<notin> set [''get'', ''post'', ''put'', ''delete'']"
    by (simp add: sz_to_lower_def tolower_def char_of_nat_bits)
  from unknown_method_returns_405[OF a b c d e f] show ?thesis .
qed




lemma sz_starts_with_case_prefix:
  "sz_starts_with_case sz pre False \<longleftrightarrow> take (length pre) sz = pre"
  by (induction sz pre False rule: sz_starts_with_case.induct) auto

text \<open>
  Claim C1. After \<^verbatim>\<open>http_init\<close> has succeeded with root \<open>R\<close>, whenever \<^verbatim>\<open>realpath_uri\<close>
  returns a path \<open>P\<close> for a URI, \<open>R\<close> is a prefix of \<open>P\<close>, \<open>P\<close> is the canonical form of
  \<open>R\<close> followed by the URI, and \<open>P\<close> exists in the file system. The root is a directory
  and its stored length is its length.
\<close>

theorem realpath_uri_contained:
  assumes "http_init fs icky_files_dir = Inr cfg"
    and "realpath_uri fs PATH_MAX cfg uri = Inr P"
  shows "take (length (static_files_dir cfg)) P = static_files_dir cfg \<and>
         fs_canon fs (static_files_dir cfg @ uri) = Inr P \<and>
         fs_stat fs P \<noteq> None \<and>
         io_is_dir fs (static_files_dir cfg) \<and>
         static_files_dir_len cfg = length (static_files_dir cfg)"
proof -
  have rp: "realpath fs (static_files_dir cfg @ uri) = Inr P"
    and sw: "sz_starts_with P (static_files_dir cfg)"
    using assms(2) by (auto simp: realpath_uri_def split: if_splits sum.splits)
  have "take (length (static_files_dir cfg)) P = static_files_dir cfg"
    using sw by (simp add: sz_starts_with_def sz_starts_with_case_prefix)
  moreover have "fs_canon fs (static_files_dir cfg @ uri) = Inr P \<and> fs_stat fs P \<noteq> None"
    using rp by (auto simp: realpath_def split: sum.splits option.splits)
  moreover have "io_is_dir fs (static_files_dir cfg) \<and>
                 static_files_dir_len cfg = length (static_files_dir cfg)"
    using assms(1) by (auto simp: http_init_def Let_def split: sum.splits if_splits)
  ultimately show ?thesis by simp
qed

theorem realpath_uri_contained_witness:
  "http_init
     \<lparr>fs_canon = (\<lambda>p. if p = ''/srv/web/a/../index.html'' then Inr ''/srv/web/index.html'' else Inr p),
      fs_stat = (\<lambda>p. if p = ''/srv/web'' then Some \<lparr>st_isreg = False, st_isdir = True, st_size = 0, st_blksize = 512\<rparr>
                      else if p = ''/srv/web/index.html'' then Some \<lparr>st_isreg = True, st_isdir = False, st_size = 5, st_blksize = 512\<rparr>
                      else None),
      fs_open = (\<lambda>p. if p = ''/srv/web/index.html'' then Some ''hello'' else None)\<rparr> ''/srv/web''
     = Inr \<lparr>static_files_dir = ''/srv/web'', static_files_dir_len = 8\<rparr> \<and>
   realpath_uri
     \<lparr>fs_canon = (\<lambda>p. if p = ''/srv/web/a/../index.html'' then Inr ''/srv/web/index.html'' else Inr p),
      fs_stat = (\<lambda>p. if p = ''/srv/web'' then Some \<lparr>st_isreg = False, st_isdir = True, st_size = 0, st_blksize = 512\<rparr>
                      else if p = ''/srv/web/index.html'' then Some \<lparr>st_isreg = True, st_isdir = False, st_size = 5, st_blksize = 512\<rparr>
                      else None),
      fs_open = (\<lambda>p. if p = ''/srv/web/index.html'' then Some ''hello'' else None)\<rparr> 4096
     \<lparr>static_files_dir = ''/srv/web'', static_files_dir_len = 8\<rparr> ''/a/../index.html''
     = Inr ''/srv/web/index.html'' \<and>
   take (length ''/srv/web'') ''/srv/web/index.html'' = ''/srv/web''"
proof -
  let ?fs = "\<lparr>fs_canon = (\<lambda>p. if p = ''/srv/web/a/../index.html'' then Inr ''/srv/web/index.html'' else Inr p),
      fs_stat = (\<lambda>p. if p = ''/srv/web'' then Some \<lparr>st_isreg = False, st_isdir = True, st_size = 0, st_blksize = 512\<rparr>
                      else if p = ''/srv/web/index.html'' then Some \<lparr>st_isreg = True, st_isdir = False, st_size = 5, st_blksize = 512\<rparr>
                      else None),
      fs_open = (\<lambda>p. if p = ''/srv/web/index.html'' then Some ''hello'' else None)\<rparr>"
  let ?cfg = "\<lparr>static_files_dir = ''/srv/web'', static_files_dir_len = 8\<rparr>"
  have i: "http_init ?fs ''/srv/web'' = Inr ?cfg"
    by (simp add: http_init_def realpath_def io_is_dir_def)
  have r: "realpath_uri ?fs 4096 ?cfg ''/a/../index.html'' = Inr ''/srv/web/index.html''"
    by (simp add: realpath_uri_def realpath_def sz_starts_with_def)
  from realpath_uri_contained[OF i r] i r show ?thesis by simp
qed

section \<open>Properties of the handshake\<close>

lemma sha1_expand_numeral:
  "sha1_expand (numeral k) ws =
     sha1_expand (pred_numeral k) (rotl32 1 (ws ! 2 XOR ws ! 7 XOR ws ! 13 XOR ws ! 15) # ws)"
  by (simp add: numeral_eq_Suc)

lemma rep_num: "replicate (numeral k) x = x # replicate (pred_numeral k) x"
  by (simp add: numeral_eq_Suc)

lemma accept_block1:
  "sha1_block (0x67452301, 0xEFCDAB89, 0x98BADCFE, 0x10325476, 0xC3D2E1F0)
    [CHR 0x64, CHR 0x47, CHR 0x68, CHR 0x6C, CHR 0x49, CHR 0x48, CHR 0x4E, CHR 0x68, CHR 0x62,
    CHR 0x58, CHR 0x42, CHR 0x73, CHR 0x5A, CHR 0x53, CHR 0x42, CHR 0x75, CHR 0x62, CHR 0x32,
    CHR 0x35, CHR 0x6A, CHR 0x5A, CHR 0x51, CHR 0x3D, CHR 0x3D, CHR 0x32, CHR 0x35, CHR 0x38,
    CHR 0x45, CHR 0x41, CHR 0x46, CHR 0x41, CHR 0x35, CHR 0x2D, CHR 0x45, CHR 0x39, CHR 0x31,
    CHR 0x34, CHR 0x2D, CHR 0x34, CHR 0x37, CHR 0x44, CHR 0x41, CHR 0x2D, CHR 0x39, CHR 0x35,
    CHR 0x43, CHR 0x41, CHR 0x2D, CHR 0x43, CHR 0x35, CHR 0x41, CHR 0x42, CHR 0x30, CHR 0x44,
    CHR 0x43, CHR 0x38, CHR 0x35, CHR 0x42, CHR 0x31, CHR 0x31, CHR 0x80, CHR 0x00, CHR 0x00,
    CHR 0x00] =
   (0x5BCF7727, 0x7327416A, 0xBE7BFBF9, 0x5A781878, 0x5E46A4E2)"
  by (simp add: sha1_block_def sha1_rounds_def sha1_expand_numeral rotl32_def add32_def
      sha1_ch_def sha1_parity_def sha1_maj_def)

lemma accept_block2:
  "sha1_block (0x5BCF7727, 0x7327416A, 0xBE7BFBF9, 0x5A781878, 0x5E46A4E2)
    [CHR 0x00, CHR 0x00, CHR 0x00, CHR 0x00, CHR 0x00, CHR 0x00, CHR 0x00, CHR 0x00, CHR 0x00,
    CHR 0x00, CHR 0x00, CHR 0x00, CHR 0x00, CHR 0x00, CHR 0x00, CHR 0x00, CHR 0x00, CHR 0x00,
    CHR 0x00, CHR 0x00, CHR 0x00, CHR 0x00, CHR 0x00, CHR 0x00, CHR 0x00, CHR 0x00, CHR 0x00,
    CHR 0x00, CHR 0x00, CHR 0x00, CHR 0x00, CHR 0x00, CHR 0x00, CHR 0x00, CHR 0x00, CHR 0x00,
    CHR 0x00, CHR 0x00, CHR 0x00, CHR 0x00, CHR 0x00, CHR 0x00, CHR 0x00, CHR 0x00, CHR 0x00,
    CHR 0x00, CHR 0x00, CHR 0x00, CHR 0x00, CHR 0x00, CHR 0x00, CHR 0x00, CHR 0x00, CHR 0x00,
    CHR 0x00, CHR 0x00, CHR 0x00, CHR 0x00, CHR 0x00, CHR 0x00, CHR 0x00, CHR 0x00, CHR 0x01,
    CHR 0xE0] =
   (0xB37A4F2C, 0xC0624F16, 0x90F64606, 0xCF385945, 0xB2BEC4EA)"
  by (simp add: sha1_block_def sha1_rounds_def sha1_expand_numeral rotl32_def add32_def
      sha1_ch_def sha1_parity_def sha1_maj_def)

lemma accept_pad:
  "sha1_pad ''dGhlIHNhbXBsZSBub25jZQ==258EAFA5-E914-47DA-95CA-C5AB0DC85B11'' =
    [CHR 0x64, CHR 0x47, CHR 0x68, CHR 0x6C, CHR 0x49, CHR 0x48, CHR 0x4E, CHR 0x68, CHR 0x62,
    CHR 0x58, CHR 0x42, CHR 0x73, CHR 0x5A, CHR 0x53, CHR 0x42, CHR 0x75, CHR 0x62, CHR 0x32,
    CHR 0x35, CHR 0x6A, CHR 0x5A, CHR 0x51, CHR 0x3D, CHR 0x3D, CHR 0x32, CHR 0x35, CHR 0x38,
    CHR 0x45, CHR 0x41, CHR 0x46, CHR 0x41, CHR 0x35, CHR 0x2D, CHR 0x45, CHR 0x39, CHR 0x31,
    CHR 0x34, CHR 0x2D, CHR 0x34, CHR 0x37, CHR 0x44, CHR 0x41, CHR 0x2D, CHR 0x39, CHR 0x35,
    CHR 0x43, CHR 0x41, CHR 0x2D, CHR 0x43, CHR 0x35, CHR 0x41, CHR 0x42, CHR 0x30, CHR 0x44,
    CHR 0x43, CHR 0x38, CHR 0x35, CHR 0x42, CHR 0x31, CHR 0x31, CHR 0x80, CHR 0x00, CHR 0x00,
    CHR 0x00, CHR 0x00, CHR 0x00, CHR 0x00, CHR 0x00, CHR 0x00, CHR 0x00, CHR 0x00, CHR 0x00,
    CHR 0x00, CHR 0x00, CHR 0x00, CHR 0x00, CHR 0x00, CHR 0x00, CHR 0x00, CHR 0x00, CHR 0x00,
    CHR 0x00, CHR 0x00, CHR 0x00, CHR 0x00, CHR 0x00, CHR 0x00, CHR 0x00, CHR 0x00, CHR 0x00,
    CHR 0x00, CHR 0x00, CHR 0x00, CHR 0x00, CHR 0x00, CHR 0x00, CHR 0x00, CHR 0x00, CHR 0x00,
    CHR 0x00, CHR 0x00, CHR 0x00, CHR 0x00, CHR 0x00, CHR 0x00, CHR 0x00, CHR 0x00, CHR 0x00,
    CHR 0x00, CHR 0x00, CHR 0x00, CHR 0x00, CHR 0x00, CHR 0x00, CHR 0x00, CHR 0x00, CHR 0x00,
    CHR 0x00, CHR 0x00, CHR 0x00, CHR 0x00, CHR 0x00, CHR 0x00, CHR 0x00, CHR 0x00, CHR 0x00,
    CHR 0x01, CHR 0xE0]"
  by (simp add: sha1_pad_def htobe64_def char_of_nat_bits rep_num)

lemma accept_sha1:
  "SHA1 ''dGhlIHNhbXBsZSBub25jZQ==258EAFA5-E914-47DA-95CA-C5AB0DC85B11'' =
    [CHR 0xB3, CHR 0x7A, CHR 0x4F, CHR 0x2C, CHR 0xC0, CHR 0x62, CHR 0x4F, CHR 0x16, CHR 0x90,
    CHR 0xF6, CHR 0x46, CHR 0x06, CHR 0xCF, CHR 0x38, CHR 0x59, CHR 0x45, CHR 0xB2, CHR 0xBE,
    CHR 0xC4, CHR 0xEA]"
  by (simp add: SHA1_def accept_pad sha1_blocks.simps accept_block1 accept_block2 be32_bytes_def
      char_of_nat_bits)

lemma fputs_fits:
  "length s \<le> room f \<Longrightarrow> fputs s f = f\<lparr>written := written f @ s, room := room f - length s\<rparr>"
  by (simp add: fputs_def fwrite_def)

lemma length_b64_encode: "length (b64_encode bs) = 4 * ((length bs + 2) div 3)"
proof (induction bs rule: b64_encode.induct)
  case (1 a b c bs)
  have "(length (a # b # c # bs) + 2) div 3 = Suc ((length bs + 2) div 3)"
    by simp
  then show ?case using 1 by (simp add: Let_def)
qed (simp_all add: Let_def)

lemma length_be32_bytes: "length (be32_bytes w) = 4"
  by (simp add: be32_bytes_def)

lemma length_SHA1: "length (SHA1 m) = 20"
proof -
  obtain h0 h1 h2 h3 h4 where
    "sha1_blocks (0x67452301, 0xEFCDAB89, 0x98BADCFE, 0x10325476, 0xC3D2E1F0) (sha1_pad m)
       = (h0, h1, h2, h3, h4)"
    by (metis prod_cases5)
  then show ?thesis
    by (simp add: SHA1_def Let_def length_be32_bytes del: sha1_blocks.simps)
qed

text \<open>
  Claim C7. For a request with the header \<open>upgrade: websocket\<close> (in any case of letters)
  and the header \<open>sec-websocket-key\<close> with value \<open>K\<close>, \<^verbatim>\<open>_ws_handshake\<close> succeeds, and on a
  stream that takes the 129 bytes it writes the 101 response whose \<open>sec-websocket-accept\<close>
  header is the base64 encoding, without line breaks, of the SHA-1 hash of \<open>K\<close> followed
  by the GUID. For the key \<open>dGhlIHNhbXBsZSBub25jZQ==\<close> that value is
  \<open>s3pPLMBiTxaQ9kYGzzhZRbK+xOo=\<close>.
\<close>

theorem handshake_accept_value:
  assumes "sz_equal_ignore_case (Some WS_UPGRADE) (ht_get headers H_UPGRADE)"
    and "ht_get headers H_SEC_WEBSOCKET_KEY = Some K"
    and "129 \<le> room f_out"
  shows "ws_handshake f_out headers =
           (True,
            f_out\<lparr>written := written f_out @
                      ''HTTP/1.1 101 Switching Protocols'' @ CRLF @
                      ''connection: upgrade'' @ CRLF @
                      ''upgrade: websocket'' @ CRLF @
                      ''sec-websocket-accept: '' @
                        b64_encode (SHA1 (K @ ''258EAFA5-E914-47DA-95CA-C5AB0DC85B11'')) @ CRLF @
                      CRLF,
                  room := room f_out - 129\<rparr>) \<and>
         b64_encode (SHA1 (''dGhlIHNhbXBsZSBub25jZQ=='' @ ''258EAFA5-E914-47DA-95CA-C5AB0DC85B11''))
           = ''s3pPLMBiTxaQ9kYGzzhZRbK+xOo=''"
proof -
  let ?acc = "b64_encode (SHA1 (K @ ''258EAFA5-E914-47DA-95CA-C5AB0DC85B11''))"
  have la: "length ?acc = 28"
    by (simp add: length_b64_encode length_SHA1)
  have "ws_handshake f_out headers =
           (True,
            f_out\<lparr>written := written f_out @
                      ''HTTP/1.1 101 Switching Protocols'' @ CRLF @
                      ''connection: upgrade'' @ CRLF @
                      ''upgrade: websocket'' @ CRLF @
                      ''sec-websocket-accept: '' @ ?acc @ CRLF @ CRLF,
                  room := room f_out - 129\<rparr>)"
    using assms la
    by (simp add: ws_handshake_def Let_def io_encode_b64_def fputs_fits CRLF_def sz_cat_def
        WS_MAGIC_def H_CONNECTION_def H_UPGRADE_def WS_UPGRADE_def H_SEC_WEBSOCKET_ACCEPT_def)
  moreover have "b64_encode (SHA1 (''dGhlIHNhbXBsZSBub25jZQ=='' @ ''258EAFA5-E914-47DA-95CA-C5AB0DC85B11''))
           = ''s3pPLMBiTxaQ9kYGzzhZRbK+xOo=''"
    by (simp add: accept_sha1 b64_digit_def b64_alphabet_def)
  ultimately show ?thesis by (simp only: simp_thms)
qed

theorem handshake_accept_value_witness:
  "ws_handshake \<lparr>written = [], room = 129\<rparr>
     (ht_put (ht_put (ht_create 0 None) ''upgrade'' (Some ''WebSocket''))
        ''sec-websocket-key'' (Some ''dGhlIHNhbXBsZSBub25jZQ==''))
   = (True,
      \<lparr>written = ''HTTP/1.1 101 Switching Protocols'' @ CRLF @
                 ''connection: upgrade'' @ CRLF @
                 ''upgrade: websocket'' @ CRLF @
                 ''sec-websocket-accept: s3pPLMBiTxaQ9kYGzzhZRbK+xOo='' @ CRLF @ CRLF,
       room = 0\<rparr>)"
proof -
  let ?h = "ht_put (ht_put (ht_create 0 None) ''upgrade'' (Some ''WebSocket''))
              ''sec-websocket-key'' (Some ''dGhlIHNhbXBsZSBub25jZQ=='') :: Http_Headers"
  have u: "ht_get ?h H_UPGRADE = Some ''WebSocket''"
    by (simp add: ht_get_put_other[OF ht_wf_put[OF ht_wf_create]] ht_get_put_same[OF ht_wf_create]
        H_UPGRADE_def)
  have a: "sz_equal_ignore_case (Some WS_UPGRADE) (ht_get ?h H_UPGRADE)"
    by (simp add: u WS_UPGRADE_def tolower_def char_of_nat_bits)
  have b: "ht_get ?h H_SEC_WEBSOCKET_KEY = Some ''dGhlIHNhbXBsZSBub25jZQ==''"
    by (simp add: ht_get_put_same[OF ht_wf_put[OF ht_wf_create]] H_SEC_WEBSOCKET_KEY_def)
  have c: "129 \<le> room \<lparr>written = [], room = 129\<rparr>"
    by simp
  from handshake_accept_value[OF a b c] show ?thesis
    by simp
qed

end
